theory Spec2Isabelle
  imports Complex_Main "HOL-Library.Multiset" "HOL-Library.Log_Nat"
begin

section \<open>Numbers\<close>

text \<open>
  The engine computes on JavaScript numbers, which are IEEE 754 doubles. The theory has
  two embeddings of it. The first computes on exact reals: the amounts of trades and
  deposits are finite numbers, modelled as \<open>real\<close>, and sums, products by \<open>1\<close> or \<open>-1\<close>,
  differences and maxima are exact. It carries the properties that rounding does not
  touch: the sign of a result, the order of the curve, the drawdown as a function of the
  curve, the empty case and the win rate as the code writes it. A division returns a
  \<open>number\<close>, which has the values \<open>Infinity\<close>, \<open>-Infinity\<close> and \<open>NaN\<close> of the language
  beside the finite ones. The second embedding, in the section on IEEE doubles, rounds
  every sum, product and quotient to the nearest double and overflows to an infinity; it
  carries the properties of sums and quotients. The two zeros are not told apart: every
  divisor of the engine is a length or a result of \<open>Math.abs\<close>.
\<close>

datatype number = Finite real | PosInfinity | NegInfinity | NaN

fun js_div :: "number \<Rightarrow> number \<Rightarrow> number" where
  "js_div (Finite a) (Finite b) =
     (if b \<noteq> 0 then Finite (a / b)
      else if a = 0 then NaN
      else if 0 < a then PosInfinity else NegInfinity)"
| "js_div (Finite a) PosInfinity = Finite 0"
| "js_div (Finite a) NegInfinity = Finite 0"
| "js_div PosInfinity (Finite b) = (if 0 \<le> b then PosInfinity else NegInfinity)"
| "js_div NegInfinity (Finite b) = (if 0 \<le> b then NegInfinity else PosInfinity)"
| "js_div _ _ = NaN"

fun js_mul :: "number \<Rightarrow> number \<Rightarrow> number" where
  "js_mul (Finite a) (Finite b) = Finite (a * b)"
| "js_mul NaN _ = NaN"
| "js_mul _ NaN = NaN"
| "js_mul (Finite a) PosInfinity =
     (if a = 0 then NaN else if 0 < a then PosInfinity else NegInfinity)"
| "js_mul (Finite a) NegInfinity =
     (if a = 0 then NaN else if 0 < a then NegInfinity else PosInfinity)"
| "js_mul PosInfinity (Finite b) =
     (if b = 0 then NaN else if 0 < b then PosInfinity else NegInfinity)"
| "js_mul NegInfinity (Finite b) =
     (if b = 0 then NaN else if 0 < b then NegInfinity else PosInfinity)"
| "js_mul PosInfinity PosInfinity = PosInfinity"
| "js_mul NegInfinity NegInfinity = PosInfinity"
| "js_mul PosInfinity NegInfinity = NegInfinity"
| "js_mul NegInfinity PosInfinity = NegInfinity"

text \<open>\<open>Math.abs\<close>.\<close>

fun js_abs :: "number \<Rightarrow> number" where
  "js_abs (Finite a) = Finite \<bar>a\<bar>"
| "js_abs PosInfinity = PosInfinity"
| "js_abs NegInfinity = PosInfinity"
| "js_abs NaN = NaN"

section \<open>Data model\<close>

datatype TradeSide = Long | Short

datatype TradeOutcome = Win | Loss

record Trade =
  id' :: string
  date :: string
  asset :: string
  side :: TradeSide
  outcome :: TradeOutcome
  amount :: real
  "note" :: "string option"

record CashMove =
  id' :: string
  date :: string
  amount :: real
  "note" :: "string option"

record EquityPoint =
  date :: string
  "value" :: real
  pnl :: real

record TrackRecordMetrics =
  netPnl :: real
  winRate :: number
  profitFactor :: "number option"
  riskReward :: "number option"
  maxDrawdown :: real
  averageWin :: "number option"
  averageLoss :: "number option"
  totalTrades :: nat

text \<open>The objects \<open>{date, delta}\<close> that \<open>buildEquityCurve\<close> sorts.\<close>

record Entry =
  date :: string
  delta :: real

section \<open>The P&L of one trade\<close>

definition calculatePnl :: "Trade \<Rightarrow> real" where
  "calculatePnl trade =
     (let sign = (if Trade.outcome trade = Win then 1 else - 1)
      in Trade.amount trade * sign)"

section \<open>Sorting with a comparator\<close>

text \<open>
  \<open>Array.prototype.sort(comparefn)\<close>. The language reads a comparator result \<open>NaN\<close> as
  \<open>+0\<close>, sorts stably, and leaves the order open when the comparator is not consistent.
  The model is stable insertion: \<open>x\<close> goes behind \<open>y\<close> exactly when \<open>comparefn(x, y) > 0\<close>.
\<close>

fun positive :: "number \<Rightarrow> bool" where
  "positive (Finite v) = (0 < v)"
| "positive PosInfinity = True"
| "positive NegInfinity = False"
| "positive NaN = False"

fun insert_sorted :: "('a \<Rightarrow> 'a \<Rightarrow> number) \<Rightarrow> 'a \<Rightarrow> 'a list \<Rightarrow> 'a list" where
  "insert_sorted comparefn x [] = [x]"
| "insert_sorted comparefn x (y # ys) =
     (if positive (comparefn x y) then y # insert_sorted comparefn x ys else x # y # ys)"

definition array_sort :: "('a \<Rightarrow> 'a \<Rightarrow> number) \<Rightarrow> 'a list \<Rightarrow> 'a list" where
  "array_sort comparefn xs = foldr (insert_sorted comparefn) xs []"

section \<open>The equity curve\<close>

text \<open>
  \<open>parseISO\<close> belongs to the library date-fns and the time of a parsed date depends on
  the time zone of the host, so \<open>parseISO(d).getTime()\<close> is the parameter \<open>getTime\<close>:
  the milliseconds of the date \<open>d\<close>, or \<open>None\<close> for the \<open>NaN\<close> of an invalid date.
\<close>

definition compareDates :: "(string \<Rightarrow> int option) \<Rightarrow> Entry \<Rightarrow> Entry \<Rightarrow> number" where
  "compareDates getTime a b =
     (case (getTime (Entry.date a), getTime (Entry.date b)) of
        (Some ta, Some tb) \<Rightarrow> Finite (real_of_int (ta - tb))
      | _ \<Rightarrow> NaN)"

text \<open>The \<open>map\<close> over the sorted entries, which adds each delta to the variable \<open>equity\<close>.\<close>

fun accumulate :: "real \<Rightarrow> Entry list \<Rightarrow> EquityPoint list" where
  "accumulate equity [] = []"
| "accumulate equity (entry # rest) =
     (let equity' = equity + delta entry
      in \<lparr>EquityPoint.date = Entry.date entry, value = equity', pnl = delta entry\<rparr>
         # accumulate equity' rest)"

definition tradeEntry :: "Trade \<Rightarrow> Entry" where
  "tradeEntry trade = \<lparr>Entry.date = Trade.date trade, delta = calculatePnl trade\<rparr>"

definition depositEntry :: "CashMove \<Rightarrow> Entry" where
  "depositEntry deposit = \<lparr>Entry.date = CashMove.date deposit, delta = CashMove.amount deposit\<rparr>"

definition buildEquityCurve ::
  "(string \<Rightarrow> int option) \<Rightarrow> Trade list \<Rightarrow> CashMove list \<Rightarrow> EquityPoint list" where
  "buildEquityCurve getTime trades deposits =
     (let entries = array_sort (compareDates getTime)
                      (map tradeEntry trades @ map depositEntry deposits)
      in accumulate 0 entries)"

section \<open>Metrics\<close>

text \<open>The local function \<open>sum\<close>: \<open>arr.reduce((a, b) => a + b, 0)\<close>.\<close>

definition sum_arr :: "real list \<Rightarrow> real" where
  "sum_arr arr = foldl (\<lambda>a b. a + b) 0 arr"

text \<open>One round of the \<open>forEach\<close> over the equity points, on the pair \<open>(peak, maxDrawdown)\<close>.\<close>

definition drawdown_step :: "real \<times> real \<Rightarrow> EquityPoint \<Rightarrow> real \<times> real" where
  "drawdown_step s point =
     (let peak = max (fst s) (value point);
          maxDrawdown = max (snd s) (peak - value point)
      in (peak, maxDrawdown))"

definition calculateMetrics :: "(string \<Rightarrow> int option) \<Rightarrow> Trade list \<Rightarrow> TrackRecordMetrics" where
  "calculateMetrics getTime trades =
     (if length trades = 0 then
        \<lparr>netPnl = 0, winRate = Finite 0, profitFactor = None, riskReward = None,
         maxDrawdown = 0, averageWin = None, averageLoss = None, totalTrades = 0\<rparr>
      else
        let pnls = map calculatePnl trades;
            winners = filter (\<lambda>p. p > 0) pnls;
            losers = filter (\<lambda>p. p < 0) pnls;
            averageWin =
              (if length winners \<noteq> 0
               then Some (js_div (Finite (sum_arr winners)) (Finite (real (length winners))))
               else None);
            averageLoss =
              (if length losers \<noteq> 0
               then Some (js_div (Finite (sum_arr losers)) (Finite (real (length losers))))
               else None);
            profitFactor =
              (if length winners \<noteq> 0 \<and> length losers \<noteq> 0
               then Some (js_div (Finite (sum_arr winners)) (js_abs (Finite (sum_arr losers))))
               else None);
            riskReward =
              (case (averageWin, averageLoss) of
                 (Some w, Some l) \<Rightarrow>
                   if l \<noteq> Finite 0 then Some (js_div w (js_abs l)) else None
               | _ \<Rightarrow> None);
            equityPoints = buildEquityCurve getTime trades [];
            maxDrawdown = snd (foldl drawdown_step (0, 0) equityPoints)
        in \<lparr>netPnl = sum_arr pnls,
            winRate = js_mul (js_div (Finite (real (length winners)))
                                     (Finite (real (length trades))))
                             (Finite 100),
            profitFactor = profitFactor,
            riskReward = riskReward,
            maxDrawdown = maxDrawdown,
            averageWin = averageWin,
            averageLoss = averageLoss,
            totalTrades = length trades\<rparr>)"

section \<open>The engine on IEEE doubles\<close>

text \<open>
  The definitions above compute on exact reals. A JavaScript number is an IEEE 754
  double: every sum, product and quotient is rounded to the nearest double, ties to the
  even mantissa, and overflows to an infinity. The definitions of this section repeat the
  engine with that arithmetic. A finite double is \<open>Finite r\<close> for a real \<open>r\<close> of the form
  \<open>m * 2 ^ e\<close> with \<open>\<bar>m\<bar> < 2 ^ 53\<close> and \<open>-1074 \<le> e \<le> 971\<close>; the two zeros are not told
  apart.
\<close>

text \<open>The binary exponent of a positive real: \<open>2 ^ ilog2 x \<le> x < 2 ^ (ilog2 x + 1)\<close>.\<close>

definition ilog2 :: "real \<Rightarrow> int" where
  "ilog2 x =
     (if 1 \<le> x then int (floorlog 2 (nat \<lfloor>x\<rfloor>)) - 1
      else - int (floorlog 2 (nat \<lceil>1 / x\<rceil> - 1)))"

definition round_half_even :: "real \<Rightarrow> int" where
  "round_half_even q =
     (let f = \<lfloor>q\<rfloor>; d = q - of_int f
      in if d < 1 / 2 then f
         else if 1 / 2 < d then f + 1
         else if even f then f else f + 1)"

text \<open>
  Rounding a positive real: the unit in the last place is \<open>2 ^ u\<close>, at least the
  subnormal unit \<open>2 ^ -1074\<close>; a result of \<open>2 ^ 1024\<close> or more is the overflow.
\<close>

definition round_pos :: "real \<Rightarrow> number" where
  "round_pos x =
     (let u = max (ilog2 x - 52) (- 1074);
          r = of_int (round_half_even (x / 2 powi u)) * 2 powi u
      in if 2 ^ 1024 \<le> r then PosInfinity else Finite r)"

fun js_neg :: "number \<Rightarrow> number" where
  "js_neg (Finite a) = Finite (- a)"
| "js_neg PosInfinity = NegInfinity"
| "js_neg NegInfinity = PosInfinity"
| "js_neg NaN = NaN"

definition double_of :: "real \<Rightarrow> number" where
  "double_of x =
     (if x = 0 then Finite 0
      else if 0 < x then round_pos x
      else js_neg (round_pos (- x)))"

fun double_add :: "number \<Rightarrow> number \<Rightarrow> number" where
  "double_add (Finite a) (Finite b) = double_of (a + b)"
| "double_add NaN _ = NaN"
| "double_add _ NaN = NaN"
| "double_add PosInfinity NegInfinity = NaN"
| "double_add NegInfinity PosInfinity = NaN"
| "double_add PosInfinity _ = PosInfinity"
| "double_add _ PosInfinity = PosInfinity"
| "double_add NegInfinity _ = NegInfinity"
| "double_add _ NegInfinity = NegInfinity"

definition double_sub :: "number \<Rightarrow> number \<Rightarrow> number" where
  "double_sub a b = double_add a (js_neg b)"

fun double_mul :: "number \<Rightarrow> number \<Rightarrow> number" where
  "double_mul (Finite a) (Finite b) = double_of (a * b)"
| "double_mul NaN _ = NaN"
| "double_mul _ NaN = NaN"
| "double_mul (Finite a) PosInfinity =
     (if a = 0 then NaN else if 0 < a then PosInfinity else NegInfinity)"
| "double_mul (Finite a) NegInfinity =
     (if a = 0 then NaN else if 0 < a then NegInfinity else PosInfinity)"
| "double_mul PosInfinity (Finite b) =
     (if b = 0 then NaN else if 0 < b then PosInfinity else NegInfinity)"
| "double_mul NegInfinity (Finite b) =
     (if b = 0 then NaN else if 0 < b then NegInfinity else PosInfinity)"
| "double_mul PosInfinity PosInfinity = PosInfinity"
| "double_mul NegInfinity NegInfinity = PosInfinity"
| "double_mul PosInfinity NegInfinity = NegInfinity"
| "double_mul NegInfinity PosInfinity = NegInfinity"

fun double_div :: "number \<Rightarrow> number \<Rightarrow> number" where
  "double_div (Finite a) (Finite b) =
     (if b \<noteq> 0 then double_of (a / b)
      else if a = 0 then NaN
      else if 0 < a then PosInfinity else NegInfinity)"
| "double_div (Finite a) PosInfinity = Finite 0"
| "double_div (Finite a) NegInfinity = Finite 0"
| "double_div PosInfinity (Finite b) = (if 0 \<le> b then PosInfinity else NegInfinity)"
| "double_div NegInfinity (Finite b) = (if 0 \<le> b then NegInfinity else PosInfinity)"
| "double_div _ _ = NaN"

text \<open>\<open>Math.max\<close> of two numbers: \<open>NaN\<close> when one of them is.\<close>

fun double_max :: "number \<Rightarrow> number \<Rightarrow> number" where
  "double_max NaN _ = NaN"
| "double_max _ NaN = NaN"
| "double_max PosInfinity _ = PosInfinity"
| "double_max _ PosInfinity = PosInfinity"
| "double_max NegInfinity b = b"
| "double_max a NegInfinity = a"
| "double_max (Finite a) (Finite b) = Finite (max a b)"

text \<open>The test \<open>p < 0\<close>; the test \<open>p > 0\<close> is \<open>positive\<close>.\<close>

fun negative :: "number \<Rightarrow> bool" where
  "negative (Finite v) = (v < 0)"
| "negative NegInfinity = True"
| "negative PosInfinity = False"
| "negative NaN = False"

text \<open>The test \<open>p >= 0\<close>.\<close>

fun nonnegative :: "number \<Rightarrow> bool" where
  "nonnegative (Finite v) = (0 \<le> v)"
| "nonnegative PosInfinity = True"
| "nonnegative NegInfinity = False"
| "nonnegative NaN = False"

text \<open>
  The amount of a record is a double. A record of the model holds a real, which stands
  for the double nearest to it, so a real that is a double stands for itself.
\<close>

definition calculatePnl64 :: "Trade \<Rightarrow> number" where
  "calculatePnl64 trade =
     (let sign = (if Trade.outcome trade = Win then 1 else - 1)
      in double_mul (double_of (Trade.amount trade)) (Finite sign))"

record Entry64 =
  entry_date :: string
  entry_delta :: number

record EquityPoint64 =
  point_date :: string
  point_value :: number
  point_pnl :: number

record TrackRecordMetrics64 =
  netPnl64 :: number
  winRate64 :: number
  profitFactor64 :: "number option"
  riskReward64 :: "number option"
  maxDrawdown64 :: number
  averageWin64 :: "number option"
  averageLoss64 :: "number option"
  totalTrades64 :: nat

definition compareDates64 :: "(string \<Rightarrow> int option) \<Rightarrow> Entry64 \<Rightarrow> Entry64 \<Rightarrow> number" where
  "compareDates64 getTime a b =
     (case (getTime (entry_date a), getTime (entry_date b)) of
        (Some ta, Some tb) \<Rightarrow> double_sub (Finite (real_of_int ta)) (Finite (real_of_int tb))
      | _ \<Rightarrow> NaN)"

fun accumulate64 :: "number \<Rightarrow> Entry64 list \<Rightarrow> EquityPoint64 list" where
  "accumulate64 equity [] = []"
| "accumulate64 equity (entry # rest) =
     (let equity' = double_add equity (entry_delta entry)
      in \<lparr>point_date = entry_date entry, point_value = equity', point_pnl = entry_delta entry\<rparr>
         # accumulate64 equity' rest)"

definition tradeEntry64 :: "Trade \<Rightarrow> Entry64" where
  "tradeEntry64 trade = \<lparr>entry_date = Trade.date trade, entry_delta = calculatePnl64 trade\<rparr>"

definition depositEntry64 :: "CashMove \<Rightarrow> Entry64" where
  "depositEntry64 deposit =
     \<lparr>entry_date = CashMove.date deposit, entry_delta = double_of (CashMove.amount deposit)\<rparr>"

definition buildEquityCurve64 ::
  "(string \<Rightarrow> int option) \<Rightarrow> Trade list \<Rightarrow> CashMove list \<Rightarrow> EquityPoint64 list" where
  "buildEquityCurve64 getTime trades deposits =
     (let entries = array_sort (compareDates64 getTime)
                      (map tradeEntry64 trades @ map depositEntry64 deposits)
      in accumulate64 (Finite 0) entries)"

text \<open>
  The result object of \<open>aggregateDailyPnl\<close> starts as \<open>{}\<close>, which inherits the properties
  of \<open>Object.prototype\<close>. For a key that names one of them, \<open>acc[dayKey] ?? 0\<close> is the
  inherited value, not \<open>0\<close>, and adding a number to it gives a string (\<open>Text\<close>); the
  assignment to \<open>__proto__\<close> is ignored, the others create the key.
\<close>

datatype jsval = Num number | Text

definition object_prototype_names :: "string list" where
  "object_prototype_names =
     [''constructor'', ''__defineGetter__'', ''__defineSetter__'', ''hasOwnProperty'',
      ''__lookupGetter__'', ''__lookupSetter__'', ''isPrototypeOf'',
      ''propertyIsEnumerable'', ''toString'', ''valueOf'', ''__proto__'',
      ''toLocaleString'']"

definition reducer64 :: "(string \<rightharpoonup> jsval) \<Rightarrow> Trade \<Rightarrow> (string \<rightharpoonup> jsval)" where
  "reducer64 acc trade =
     (let dayKey = Trade.date trade;
          pnl = calculatePnl64 trade
      in case acc dayKey of
           Some (Num v) \<Rightarrow> acc(dayKey \<mapsto> Num (double_add v pnl))
         | Some Text \<Rightarrow> acc(dayKey \<mapsto> Text)
         | None \<Rightarrow>
             if dayKey = ''__proto__'' then acc
             else if dayKey \<in> set object_prototype_names then acc(dayKey \<mapsto> Text)
             else acc(dayKey \<mapsto> Num (double_add (Finite 0) pnl)))"

definition aggregateDailyPnl64 :: "Trade list \<Rightarrow> (string \<rightharpoonup> jsval)" where
  "aggregateDailyPnl64 trades = foldl reducer64 Map.empty trades"

definition sum_arr64 :: "number list \<Rightarrow> number" where
  "sum_arr64 arr = foldl (\<lambda>a b. double_add a b) (Finite 0) arr"

definition drawdown_step64 :: "number \<times> number \<Rightarrow> EquityPoint64 \<Rightarrow> number \<times> number" where
  "drawdown_step64 s point =
     (let peak = double_max (fst s) (point_value point);
          maxDrawdown = double_max (snd s) (double_sub peak (point_value point))
      in (peak, maxDrawdown))"

definition calculateMetrics64 ::
  "(string \<Rightarrow> int option) \<Rightarrow> Trade list \<Rightarrow> TrackRecordMetrics64" where
  "calculateMetrics64 getTime trades =
     (if length trades = 0 then
        \<lparr>netPnl64 = Finite 0, winRate64 = Finite 0, profitFactor64 = None,
         riskReward64 = None, maxDrawdown64 = Finite 0, averageWin64 = None,
         averageLoss64 = None, totalTrades64 = 0\<rparr>
      else
        let pnls = map calculatePnl64 trades;
            winners = filter (\<lambda>p. positive p) pnls;
            losers = filter (\<lambda>p. negative p) pnls;
            averageWin =
              (if length winners \<noteq> 0
               then Some (double_div (sum_arr64 winners) (Finite (real (length winners))))
               else None);
            averageLoss =
              (if length losers \<noteq> 0
               then Some (double_div (sum_arr64 losers) (Finite (real (length losers))))
               else None);
            profitFactor =
              (if length winners \<noteq> 0 \<and> length losers \<noteq> 0
               then Some (double_div (sum_arr64 winners) (js_abs (sum_arr64 losers)))
               else None);
            riskReward =
              (case (averageWin, averageLoss) of
                 (Some w, Some l) \<Rightarrow>
                   if l \<noteq> Finite 0 then Some (double_div w (js_abs l)) else None
               | _ \<Rightarrow> None);
            equityPoints = buildEquityCurve64 getTime trades [];
            maxDrawdown = snd (foldl drawdown_step64 (Finite 0, Finite 0) equityPoints)
        in \<lparr>netPnl64 = sum_arr64 pnls,
            winRate64 = double_mul (double_div (Finite (real (length winners)))
                                               (Finite (real (length trades))))
                                   (Finite 100),
            profitFactor64 = profitFactor,
            riskReward64 = riskReward,
            maxDrawdown64 = maxDrawdown,
            averageWin64 = averageWin,
            averageLoss64 = averageLoss,
            totalTrades64 = length trades\<rparr>)"

text \<open>
  Amounts that are whole numbers whose absolute values total at most \<open>2 ^ 53\<close>: every
  sum of some of them is a double, so no addition rounds.
\<close>

definition whole_within :: "real list \<Rightarrow> bool" where
  "whole_within xs \<longleftrightarrow> (\<forall>x\<in>set xs. x \<in> \<int>) \<and> sum_list (map abs xs) \<le> 2 ^ 53"

section \<open>The drawdown as the specification words it\<close>



section \<open>Example records\<close>

text \<open>
  The records of the scenarios of the specification, and the times of their two dates
  at midnight UTC in milliseconds, on which the theorems below are run.
\<close>

definition example_getTime :: "string \<Rightarrow> int option" where
  "example_getTime =
     map_of [(''2024-01-01'', 1704067200000), (''2024-01-02'', 1704153600000)]"

definition win_trade :: "string \<Rightarrow> real \<Rightarrow> Trade" where
  "win_trade d a = \<lparr>Trade.id' = ''w'', date = d, asset = ''BTC'', side = Long,
                    outcome = Win, amount = a, note = None\<rparr>"

definition loss_trade :: "string \<Rightarrow> real \<Rightarrow> Trade" where
  "loss_trade d a = \<lparr>Trade.id' = ''l'', date = d, asset = ''BTC'', side = Short,
                    outcome = Loss, amount = a, note = None\<rparr>"

definition deposit :: "string \<Rightarrow> real \<Rightarrow> CashMove" where
  "deposit d a = \<lparr>CashMove.id' = ''d'', date = d, amount = a, note = None\<rparr>"

section \<open>Properties of the P&L\<close>

lemmas example_defs = example_getTime_def win_trade_def loss_trade_def deposit_def



text \<open>
  Claim C2, as amended. For a trade whose outcome is \<open>win\<close>, \<open>calculatePnl\<close> returns
  exactly the amount of the trade, and for a trade whose outcome is \<open>loss\<close> exactly the
  negation of the amount. The amount is multiplied as it is stored: the sign of the result
  is the sign of the stored amount for a win and the opposite sign for a loss, so a
  positive amount gives a positive result for a win and a negative one for a loss.
\<close>

theorem calculatePnl_by_outcome:
  "(Trade.outcome t = Win \<longrightarrow> calculatePnl t = Trade.amount t)
   \<and> (Trade.outcome t = Loss \<longrightarrow> calculatePnl t = - Trade.amount t)
   \<and> sgn (calculatePnl t)
       = (if Trade.outcome t = Win then sgn (Trade.amount t) else - sgn (Trade.amount t))
   \<and> (0 < Trade.amount t \<longrightarrow>
        (Trade.outcome t = Win \<longrightarrow> 0 < calculatePnl t)
        \<and> (Trade.outcome t = Loss \<longrightarrow> calculatePnl t < 0))"
  by (cases "Trade.outcome t") (simp_all add: calculatePnl_def)

theorem calculatePnl_by_outcome_witness:
  "calculatePnl \<lparr>Trade.id' = ''t1'', date = ''2024-01-01'', asset = ''BTC'', side = Long,
                  outcome = Win, amount = 200, note = None\<rparr> = 200
   \<and> 0 < calculatePnl \<lparr>Trade.id' = ''t1'', date = ''2024-01-01'', asset = ''BTC'', side = Long,
                  outcome = Win, amount = 200, note = None\<rparr>
   \<and> calculatePnl \<lparr>Trade.id' = ''t2'', date = ''2024-01-02'', asset = ''BTC'', side = Short,
                  outcome = Loss, amount = 100, note = None\<rparr> = - 100
   \<and> calculatePnl \<lparr>Trade.id' = ''t2'', date = ''2024-01-02'', asset = ''BTC'', side = Short,
                  outcome = Loss, amount = 100, note = None\<rparr> < 0"
  using calculatePnl_by_outcome
      [of "\<lparr>Trade.id' = ''t1'', date = ''2024-01-01'', asset = ''BTC'', side = Long,
            outcome = Win, amount = 200, note = None\<rparr>"]
    calculatePnl_by_outcome
      [of "\<lparr>Trade.id' = ''t2'', date = ''2024-01-02'', asset = ''BTC'', side = Short,
            outcome = Loss, amount = 100, note = None\<rparr>"]
  by simp

text \<open>
  Claim C2 as it is written says that the sign of the result is fixed by the outcome and
  never by the sign of the stored amount. Two winning trades, with the stored amounts
  \<open>5\<close> and \<open>-5\<close>, have results of opposite signs.
\<close>

theorem calculatePnl_sign_counterexample:
  "Trade.outcome \<lparr>Trade.id' = ''a'', date = ''2024-01-01'', asset = ''BTC'', side = Long,
                   outcome = Win, amount = 5, note = None\<rparr>
     = Trade.outcome \<lparr>Trade.id' = ''b'', date = ''2024-01-01'', asset = ''BTC'', side = Long,
                   outcome = Win, amount = - 5, note = None\<rparr>
   \<and> sgn (calculatePnl \<lparr>Trade.id' = ''a'', date = ''2024-01-01'', asset = ''BTC'', side = Long,
                   outcome = Win, amount = 5, note = None\<rparr>) = 1
   \<and> sgn (calculatePnl \<lparr>Trade.id' = ''b'', date = ''2024-01-01'', asset = ''BTC'', side = Long,
                   outcome = Win, amount = - 5, note = None\<rparr>) = - 1"
  by (simp add: calculatePnl_def)

section \<open>Properties of the sort\<close>

lemma mset_insert_sorted: "mset (insert_sorted c x ys) = add_mset x (mset ys)"
  by (induction ys) simp_all

lemma mset_array_sort: "mset (array_sort c xs) = mset xs"
  by (induction xs) (simp_all add: array_sort_def mset_insert_sorted)


text \<open>When every date parses, the comparator is the order of the times.\<close>

lemma insert_sorted_insort_key:
  assumes "getTime (Entry.date x) \<noteq> None"
    and "\<forall>y\<in>set ys. getTime (Entry.date y) \<noteq> None"
  shows "insert_sorted (compareDates getTime) x ys
           = insort_key (\<lambda>e. the (getTime (Entry.date e))) x ys"
  using assms by (induction ys) (auto simp: compareDates_def)

lemma array_sort_sort_key:
  assumes "\<forall>y\<in>set xs. getTime (Entry.date y) \<noteq> None"
  shows "array_sort (compareDates getTime) xs
           = sort_key (\<lambda>e. the (getTime (Entry.date e))) xs"
  using assms
proof (induction xs)
  case Nil
  then show ?case by (simp add: array_sort_def)
next
  case (Cons x xs)
  then have IH: "array_sort (compareDates getTime) xs
           = sort_key (\<lambda>e. the (getTime (Entry.date e))) xs" by simp
  have "array_sort (compareDates getTime) (x # xs)
          = insert_sorted (compareDates getTime) x (array_sort (compareDates getTime) xs)"
    by (simp add: array_sort_def)
  also have "\<dots> = insort_key (\<lambda>e. the (getTime (Entry.date e))) x
                     (array_sort (compareDates getTime) xs)"
  proof (rule insert_sorted_insort_key)
    show "getTime (Entry.date x) \<noteq> None" using Cons.prems by simp
    show "\<forall>y\<in>set (array_sort (compareDates getTime) xs). getTime (Entry.date y) \<noteq> None"
      using Cons.prems mset_array_sort [of "compareDates getTime" xs]
      by (metis list.set_intros(2) set_mset_mset)
  qed
  finally show ?case by (simp add: IH)
qed

section \<open>Properties of the equity curve\<close>

lemma dates_accumulate: "map EquityPoint.date (accumulate e xs) = map Entry.date xs"
  by (induction xs arbitrary: e) (simp_all add: Let_def)

lemma filter_accumulate_events:
  "map (\<lambda>p. (EquityPoint.date p, pnl p)) (filter (\<lambda>p. P (EquityPoint.date p)) (accumulate e xs))
     = map (\<lambda>x. (Entry.date x, delta x)) (filter (\<lambda>x. P (Entry.date x)) xs)"
  by (induction xs arbitrary: e) (simp_all add: Let_def)

text \<open>
  Claim C3. When every date of the input parses, the points are in ascending order of the
  parsed date, and the points of one parsed date \<open>k\<close> are the trades of that date in
  their input order followed by the deposits of that date in their input order.
\<close>

theorem buildEquityCurve_sorted_stable:
  assumes "\<forall>t\<in>set trades. getTime (Trade.date t) \<noteq> None"
    and "\<forall>d\<in>set deposits. getTime (CashMove.date d) \<noteq> None"
  shows "sorted (map (\<lambda>p. the (getTime (EquityPoint.date p)))
                   (buildEquityCurve getTime trades deposits))
       \<and> map (\<lambda>p. (EquityPoint.date p, pnl p))
             (filter (\<lambda>p. getTime (EquityPoint.date p) = Some k)
                (buildEquityCurve getTime trades deposits))
         = map (\<lambda>t. (Trade.date t, calculatePnl t))
             (filter (\<lambda>t. getTime (Trade.date t) = Some k) trades)
           @ map (\<lambda>d. (CashMove.date d, CashMove.amount d))
               (filter (\<lambda>d. getTime (CashMove.date d) = Some k) deposits)"
proof -
  let ?es = "map tradeEntry trades @ map depositEntry deposits"
  let ?f = "\<lambda>e. the (getTime (Entry.date e))"
  have valid: "\<forall>y\<in>set ?es. getTime (Entry.date y) \<noteq> None"
    using assms by (auto simp: tradeEntry_def depositEntry_def)
  have curve: "buildEquityCurve getTime trades deposits = accumulate 0 (sort_key ?f ?es)"
    by (simp only: buildEquityCurve_def Let_def array_sort_sort_key [OF valid])
  have "map (\<lambda>p. the (getTime (EquityPoint.date p))) (accumulate 0 (sort_key ?f ?es))
          = map (\<lambda>d. the (getTime d)) (map EquityPoint.date (accumulate 0 (sort_key ?f ?es)))"
    by (simp add: comp_def)
  also have "\<dots> = map ?f (sort_key ?f ?es)"
    by (simp only: dates_accumulate) (simp add: comp_def)
  finally have srt: "sorted (map (\<lambda>p. the (getTime (EquityPoint.date p)))
                   (buildEquityCurve getTime trades deposits))"
    by (simp only: curve sorted_sort_key)
  have key: "\<And>y. y \<in> set ?es \<Longrightarrow> (getTime (Entry.date y) = Some k) = (?f y = k)"
    using valid by auto
  have "filter (\<lambda>x. getTime (Entry.date x) = Some k) (sort_key ?f ?es)
          = filter (\<lambda>x. ?f x = k) (sort_key ?f ?es)"
    by (rule filter_cong) (use key in auto)
  also have "\<dots> = filter (\<lambda>x. ?f x = k) ?es"
    by (rule sort_key_stable)
  also have "\<dots> = filter (\<lambda>x. getTime (Entry.date x) = Some k) ?es"
    by (rule filter_cong) (use key in auto)
  finally have stab: "filter (\<lambda>x. getTime (Entry.date x) = Some k) (sort_key ?f ?es)
          = filter (\<lambda>x. getTime (Entry.date x) = Some k) ?es" .
  have "map (\<lambda>p. (EquityPoint.date p, pnl p))
             (filter (\<lambda>p. getTime (EquityPoint.date p) = Some k)
                (buildEquityCurve getTime trades deposits))
        = map (\<lambda>x. (Entry.date x, delta x))
            (filter (\<lambda>x. getTime (Entry.date x) = Some k) ?es)"
    by (simp only: curve filter_accumulate_events [where P = "\<lambda>d. getTime d = Some k"] stab)
  also have "\<dots> = map (\<lambda>t. (Trade.date t, calculatePnl t))
             (filter (\<lambda>t. getTime (Trade.date t) = Some k) trades)
           @ map (\<lambda>d. (CashMove.date d, CashMove.amount d))
               (filter (\<lambda>d. getTime (CashMove.date d) = Some k) deposits)"
    by (simp add: filter_map comp_def tradeEntry_def depositEntry_def)
  finally show ?thesis using srt by simp
qed

theorem buildEquityCurve_sorted_stable_witness:
  "sorted (map (\<lambda>p. the (example_getTime (EquityPoint.date p)))
       (buildEquityCurve example_getTime
          [win_trade ''2024-01-02'' 200, loss_trade ''2024-01-01'' 100, win_trade ''2024-01-01'' 50]
          [deposit ''2024-01-01'' 1000]))
   \<and> map (\<lambda>p. (EquityPoint.date p, pnl p))
       (filter (\<lambda>p. example_getTime (EquityPoint.date p) = Some 1704067200000)
          (buildEquityCurve example_getTime
             [win_trade ''2024-01-02'' 200, loss_trade ''2024-01-01'' 100,
              win_trade ''2024-01-01'' 50]
             [deposit ''2024-01-01'' 1000]))
     = [(''2024-01-01'', - 100), (''2024-01-01'', 50), (''2024-01-01'', 1000)]"
proof -
  have h1: "\<forall>t\<in>set [win_trade ''2024-01-02'' 200, loss_trade ''2024-01-01'' 100,
                      win_trade ''2024-01-01'' 50]. example_getTime (Trade.date t) \<noteq> None"
    by (simp add: example_defs)
  have h2: "\<forall>d\<in>set [deposit ''2024-01-01'' 1000]. example_getTime (CashMove.date d) \<noteq> None"
    by (simp add: example_defs)
  note T = buildEquityCurve_sorted_stable [OF h1 h2, of 1704067200000]
  have rhs: "map (\<lambda>t. (Trade.date t, calculatePnl t))
             (filter (\<lambda>t. example_getTime (Trade.date t) = Some 1704067200000)
                [win_trade ''2024-01-02'' 200, loss_trade ''2024-01-01'' 100,
                 win_trade ''2024-01-01'' 50])
           @ map (\<lambda>d. (CashMove.date d, CashMove.amount d))
               (filter (\<lambda>d. example_getTime (CashMove.date d) = Some 1704067200000)
                  [deposit ''2024-01-01'' 1000])
        = [(''2024-01-01'', - 100), (''2024-01-01'', 50), (''2024-01-01'', 1000)]"
    by (simp add: example_defs calculatePnl_def)
  from T [THEN conjunct1] T [THEN conjunct2] show ?thesis
    by (simp only: rhs)
qed

section \<open>Properties of the metrics\<close>

text \<open>
  Claim C7. On the empty list of trades \<open>calculateMetrics\<close> returns the record of zeros
  and nulls, from its first branch.
\<close>

theorem calculateMetrics_empty:
  "calculateMetrics getTime [] =
     \<lparr>netPnl = 0, winRate = Finite 0, profitFactor = None, riskReward = None,
      maxDrawdown = 0, averageWin = None, averageLoss = None, totalTrades = 0\<rparr>"
  by (simp add: calculateMetrics_def)

subsection \<open>The drawdown\<close>











subsection \<open>The fields of the result\<close>






subsection \<open>Lists with the same multiset\<close>

lemma mset_partitions:
  assumes "mset trades = mset trades'"
  shows "mset (filter P (map calculatePnl trades)) = mset (filter P (map calculatePnl trades'))"
  using assms by (simp only: mset_filter mset_map)

lemma mset_eq_sum_list:
  fixes xs :: "real list"
  assumes "mset xs = mset ys"
  shows "sum_list xs = sum_list ys"
proof -
  have "sum_list xs = sum_mset (mset xs)" by (simp only: sum_mset_sum_list)
  also have "\<dots> = sum_mset (mset ys)" by (simp only: assms)
  also have "\<dots> = sum_list ys" by (simp only: sum_mset_sum_list)
  finally show ?thesis .
qed

lemma mset_eq_Nil_iff:
  assumes "mset xs = mset ys"
  shows "(xs = []) = (ys = [])"
proof -
  have "length xs = length ys" by (rule mset_eq_length [OF assms])
  then show ?thesis by (cases xs; cases ys) simp_all
qed

section \<open>Sums by day\<close>

lemma sum_by_day:
  fixes f :: "'a \<Rightarrow> real"
  assumes "finite D"
  shows "k ` set xs \<subseteq> D \<Longrightarrow>
    (\<Sum>d\<in>D. sum_list (map f (filter (\<lambda>x. k x = d) xs))) = sum_list (map f xs)"
proof (induction xs)
  case Nil
  then show ?case by simp
next
  case (Cons x xs)
  then have kx: "k x \<in> D" and sub: "k ` set xs \<subseteq> D" by simp_all
  have "(\<Sum>d\<in>D. sum_list (map f (filter (\<lambda>y. k y = d) (x # xs))))
          = (\<Sum>d\<in>D. (if k x = d then f x else 0)
                      + sum_list (map f (filter (\<lambda>y. k y = d) xs)))"
    by (rule sum.cong) simp_all
  also have "\<dots> = (\<Sum>d\<in>D. if k x = d then f x else 0)
                    + (\<Sum>d\<in>D. sum_list (map f (filter (\<lambda>y. k y = d) xs)))"
    by (rule sum.distrib)
  also have "(\<Sum>d\<in>D. if k x = d then f x else 0) = f x"
    using assms kx by simp
  also have "(\<Sum>d\<in>D. sum_list (map f (filter (\<lambda>y. k y = d) xs))) = sum_list (map f xs)"
    by (rule Cons.IH [OF sub])
  finally show ?case by simp
qed

section \<open>Rounding to a double\<close>

lemma ilog2_bounds_ge1:
  assumes "1 \<le> x"
  shows "2 powi ilog2 x \<le> x \<and> x < 2 powi (ilog2 x + 1)"
proof -
  define n where "n = nat \<lfloor>x\<rfloor>"
  define f where "f = floorlog 2 n"
  have n_pos: "0 < n" using assms by (simp add: n_def)
  have b: "2 ^ (f - 1) \<le> n \<and> n < 2 ^ f"
    unfolding f_def by (rule floorlog_bounds) (use n_pos in simp_all)
  have f_pos: "0 < f" using b n_pos by (cases f) auto
  have il: "ilog2 x = int (f - 1)"
    using assms f_pos by (simp add: ilog2_def n_def f_def)
  have nx: "real n \<le> x" using assms by (simp add: n_def)
  have xn: "x < real n + 1" using assms by (simp add: n_def)
  have "(2::real) ^ (f - 1) \<le> real n"
    using b by (metis of_nat_le_iff of_nat_numeral of_nat_power)
  moreover have "(2::real) powi ilog2 x = 2 ^ (f - 1)" by (simp only: il power_int_of_nat)
  ultimately have lo: "2 powi ilog2 x \<le> x" using nx by linarith
  have "n + 1 \<le> 2 ^ f" using b by simp
  then have "real n + 1 \<le> 2 ^ f"
    by (metis of_nat_le_iff of_nat_numeral of_nat_power of_nat_Suc Suc_eq_plus1 add.commute)
  moreover have "ilog2 x + 1 = int f" using il f_pos by simp
  then have "(2::real) powi (ilog2 x + 1) = 2 ^ f" by (simp only: power_int_of_nat)
  ultimately have hi: "x < 2 powi (ilog2 x + 1)" using xn by linarith
  from lo hi show ?thesis by simp
qed

lemma ilog2_bounds_lt1:
  assumes "0 < x" and "x < 1"
  shows "2 powi ilog2 x \<le> x \<and> x < 2 powi (ilog2 x + 1)"
proof -
  define c where "c = \<lceil>1 / x\<rceil>"
  define m where "m = nat c - 1"
  define f where "f = floorlog 2 m"
  have inv: "1 < 1 / x" using assms by simp
  then have c2: "2 \<le> c" unfolding c_def by linarith
  have m_pos: "0 < m" using c2 by (simp add: m_def)
  have mc: "int m = c - 1" using c2 by (simp add: m_def)
  have b: "2 ^ (f - 1) \<le> m \<and> m < 2 ^ f"
    unfolding f_def by (rule floorlog_bounds) (use m_pos in simp_all)
  have f_pos: "0 < f" using b m_pos by (cases f) auto
  have il: "ilog2 x = - int f"
    using assms by (simp add: ilog2_def c_def m_def f_def)
  have up: "1 / x \<le> real_of_int c" unfolding c_def by linarith
  have dn: "real_of_int c - 1 < 1 / x" unfolding c_def by linarith
  have rm: "real m = real_of_int c - 1" using mc by (metis of_int_of_nat_eq of_int_diff of_int_1)
  have "m + 1 \<le> 2 ^ f" using b by simp
  then have "real m + 1 \<le> 2 ^ f"
    by (metis of_nat_le_iff of_nat_numeral of_nat_power of_nat_Suc Suc_eq_plus1 add.commute)
  then have "1 / x \<le> 2 ^ f" using up rm by linarith
  then have "1 \<le> 2 ^ f * x" using assms by (simp add: field_simps)
  then have lo: "2 powi ilog2 x \<le> x"
    by (simp add: il power_int_minus field_simps)
  have "(2::real) ^ (f - 1) \<le> real m"
    using b by (metis of_nat_le_iff of_nat_numeral of_nat_power)
  then have "2 ^ (f - 1) < 1 / x" using dn rm by linarith
  then have "x * 2 ^ (f - 1) < 1" using assms by (simp add: field_simps)
  moreover have "ilog2 x + 1 = - int (f - 1)" using il f_pos by simp
  ultimately have hi: "x < 2 powi (ilog2 x + 1)"
    by (simp add: power_int_minus field_simps)
  from lo hi show ?thesis by simp
qed

lemma ilog2_bounds:
  "0 < x \<Longrightarrow> 2 powi ilog2 x \<le> x \<and> x < 2 powi (ilog2 x + 1)"
  using ilog2_bounds_ge1 [of x] ilog2_bounds_lt1 [of x] by (cases "1 \<le> x") simp_all

lemma ilog2_ge:
  assumes "0 < x" and "2 powi a \<le> x"
  shows "a \<le> ilog2 x"
proof (rule ccontr)
  assume "\<not> a \<le> ilog2 x"
  then have "ilog2 x + 1 \<le> a" by simp
  then have "(2::real) powi (ilog2 x + 1) \<le> 2 powi a"
    by (intro power_int_increasing) simp_all
  with ilog2_bounds [OF assms(1)] assms(2) show False by linarith
qed

lemma ilog2_lt:
  assumes "0 < x" and "x < 2 powi b"
  shows "ilog2 x < b"
proof (rule ccontr)
  assume "\<not> ilog2 x < b"
  then have "b \<le> ilog2 x" by simp
  then have "(2::real) powi b \<le> 2 powi ilog2 x"
    by (intro power_int_increasing) simp_all
  with ilog2_bounds [OF assms(1)] assms(2) show False by linarith
qed

lemma ilog2_eqI:
  assumes "0 < x" and "2 powi k \<le> x" and "x < 2 powi (k + 1)"
  shows "ilog2 x = k"
  using ilog2_ge [OF assms(1,2)] ilog2_lt [OF assms(1,3)] by simp

lemma round_half_even_int: "round_half_even (of_int n) = n"
  by (simp add: round_half_even_def)

lemma round_half_even_ge: "of_int m \<le> q \<Longrightarrow> m \<le> round_half_even q"
proof -
  assume "of_int m \<le> q"
  then have "m \<le> \<lfloor>q\<rfloor>" by (simp add: le_floor_iff)
  then show ?thesis by (simp add: round_half_even_def Let_def)
qed

lemma round_half_even_le: "q \<le> of_int m \<Longrightarrow> round_half_even q \<le> m"
proof -
  assume le: "q \<le> of_int m"
  then have f: "\<lfloor>q\<rfloor> \<le> m" by (simp add: floor_le_iff)
  show ?thesis
  proof (cases "q = of_int \<lfloor>q\<rfloor>")
    case True
    then have "round_half_even q = \<lfloor>q\<rfloor>"
      by (metis round_half_even_int)
    then show ?thesis using f by simp
  next
    case False
    then have "of_int \<lfloor>q\<rfloor> < q" by (metis of_int_floor_le order_le_less)
    then have "of_int \<lfloor>q\<rfloor> < (of_int m :: real)" using le by linarith
    then have "\<lfloor>q\<rfloor> + 1 \<le> m" by simp
    then show ?thesis using f by (simp add: round_half_even_def Let_def)
  qed
qed

lemma round_pos_representable:
  assumes m: "0 < m" "m < 2 ^ 53" and e: "- 1074 \<le> e" "e \<le> 971"
  shows "round_pos (of_int m * 2 powi e) = Finite (of_int m * 2 powi e)"
proof -
  define x :: real where "x = of_int m * 2 powi e"
  define u where "u = max (ilog2 x - 52) (- 1074)"
  define d where "d = nat (e - u)"
  have x_pos: "0 < x" using m(1) by (simp add: x_def)
  have "real_of_int m < 2 ^ 53" using m(2) by (metis of_int_less_iff of_int_numeral of_int_power)
  then have "x < 2 ^ 53 * 2 powi e" by (simp add: x_def)
  also have "\<dots> = 2 powi (53 + e)" by (simp add: power_int_add)
  finally have x_lt: "x < 2 powi (53 + e)" .
  then have "ilog2 x < 53 + e" by (rule ilog2_lt [OF x_pos])
  then have u_le: "u \<le> e" using e(1) by (simp add: u_def)
  then have ed: "e = int d + u" by (simp add: d_def)
  have "(2::real) powi (int d + u) = 2 powi int d * 2 powi u"
    by (rule power_int_add) simp
  then have pw: "(2::real) powi e = 2 ^ d * 2 powi u"
    by (simp only: ed [symmetric] power_int_of_nat)
  have q: "x / 2 powi u = of_int (m * 2 ^ d)"
    by (simp add: x_def pw)
  have rhe: "round_half_even (x / 2 powi u) = m * 2 ^ d"
    by (simp only: q round_half_even_int)
  have r: "of_int (round_half_even (x / 2 powi u)) * 2 powi u = x"
    by (simp only: rhe) (simp add: x_def pw)
  have "(2::real) powi (53 + e) \<le> 2 powi 1024"
    by (rule power_int_increasing) (use e(2) in simp_all)
  then have "x < 2 powi 1024" using x_lt by (rule less_le_trans [rotated])
  then have "x < 2 ^ 1024" by (simp only: power_int_numeral)
  then have "\<not> 2 ^ 1024 \<le> x" by (simp only: not_le)
  then have "round_pos x = Finite x"
    by (simp only: round_pos_def Let_def u_def [symmetric] r if_False)
  then show ?thesis by (simp only: x_def)
qed

lemma round_pos_overflow:
  assumes "2 ^ 1024 \<le> x"
  shows "round_pos x = PosInfinity"
proof -
  define k where "k = ilog2 x"
  define u where "u = max (k - 52) (- 1074)"
  have x_pos: "0 < x" using assms by (smt (verit) zero_less_power)
  have "(2::real) powi 1024 \<le> x" using assms by simp
  then have k: "1024 \<le> k" unfolding k_def by (rule ilog2_ge [OF x_pos])
  then have u: "u = k - 52" by (simp add: u_def)
  have kx: "2 powi k \<le> x" using ilog2_bounds [OF x_pos] by (simp add: k_def)
  have "(2::real) powi (52 + u) = 2 powi 52 * 2 powi u"
    by (rule power_int_add) simp
  moreover have "52 + u = k" by (simp add: u)
  ultimately have pk: "(2::real) powi k = 2 ^ 52 * 2 powi u" by simp
  then have "2 ^ 52 * 2 powi u \<le> x" using kx by simp
  then have "2 ^ 52 \<le> x / 2 powi u" by (simp add: field_simps)
  then have "real_of_int (2 ^ 52) \<le> x / 2 powi u" by simp
  then have "2 ^ 52 \<le> round_half_even (x / 2 powi u)" by (rule round_half_even_ge)
  then have "(2::real) ^ 52 \<le> of_int (round_half_even (x / 2 powi u))"
    by (metis of_int_le_iff of_int_numeral of_int_power)
  then have "(2::real) ^ 52 * 2 powi u \<le> of_int (round_half_even (x / 2 powi u)) * 2 powi u"
    by (intro mult_right_mono) simp_all
  then have a: "(2::real) powi k \<le> of_int (round_half_even (x / 2 powi u)) * 2 powi u"
    by (simp only: pk)
  have "(2::real) powi 1024 \<le> 2 powi k"
    by (rule power_int_increasing) (use k in simp_all)
  then have "(2::real) ^ 1024 \<le> 2 powi k" by (simp only: power_int_numeral)
  then have "(2::real) ^ 1024 \<le> of_int (round_half_even (x / 2 powi u)) * 2 powi u"
    using a by (rule order_trans)
  then show ?thesis
    by (simp only: round_pos_def Let_def k_def [symmetric] u_def [symmetric] if_True)
qed

lemma round_pos_range:
  assumes x_pos: "0 < x" and k: "- 1022 \<le> ilog2 x" "ilog2 x \<le> 1022"
  shows "\<exists>r. round_pos x = Finite r \<and> 2 powi ilog2 x \<le> r \<and> r \<le> 2 powi (ilog2 x + 1)"
proof -
  define k where "k = ilog2 x"
  define u where "u = max (k - 52) (- 1074)"
  define n where "n = round_half_even (x / 2 powi u)"
  have u: "u = k - 52" using assms(2) by (simp add: u_def k_def)
  have "(2::real) powi (52 + u) = 2 powi 52 * 2 powi u"
    by (rule power_int_add) simp
  moreover have "52 + u = k" by (simp add: u)
  ultimately have pk: "(2::real) powi k = 2 ^ 52 * 2 powi u" by simp
  have "(2::real) powi (53 + u) = 2 powi 53 * 2 powi u"
    by (rule power_int_add) simp
  moreover have "53 + u = k + 1" by (simp add: u)
  ultimately have pk1: "(2::real) powi (k + 1) = 2 ^ 53 * 2 powi u" by simp
  have b: "2 powi k \<le> x \<and> x < 2 powi (k + 1)"
    using ilog2_bounds [OF x_pos] by (simp add: k_def)
  have "2 ^ 52 \<le> x / 2 powi u" using b pk by (simp add: field_simps)
  then have "real_of_int (2 ^ 52) \<le> x / 2 powi u" by simp
  then have "2 ^ 52 \<le> n" unfolding n_def by (rule round_half_even_ge)
  then have n_lo: "(2::real) ^ 52 \<le> of_int n"
    by (metis of_int_le_iff of_int_numeral of_int_power)
  have "x / 2 powi u \<le> 2 ^ 53" using b pk1 by (simp add: field_simps)
  then have "x / 2 powi u \<le> real_of_int (2 ^ 53)" by simp
  then have "n \<le> 2 ^ 53" unfolding n_def by (rule round_half_even_le)
  then have n_hi: "of_int n \<le> (2::real) ^ 53"
    by (metis of_int_le_iff of_int_numeral of_int_power)
  have lo: "(2::real) powi k \<le> of_int n * 2 powi u"
    unfolding pk using n_lo by (intro mult_right_mono) simp_all
  have hi: "of_int n * 2 powi u \<le> (2::real) powi (k + 1)"
    unfolding pk1 using n_hi by (intro mult_right_mono) simp_all
  have "(2::real) powi (k + 1) \<le> 2 powi 1023"
    by (rule power_int_increasing) (use assms(3) in \<open>simp_all add: k_def\<close>)
  also have "\<dots> < 2 powi 1024"
    by (rule power_int_strict_increasing) simp_all
  finally have "(2::real) powi (k + 1) < 2 ^ 1024" by (simp only: power_int_numeral)
  with hi have "of_int n * 2 powi u < (2::real) ^ 1024" by (rule le_less_trans)
  then have "\<not> (2::real) ^ 1024 \<le> of_int n * 2 powi u" by (simp only: not_le)
  then have "round_pos x = Finite (of_int n * 2 powi u)"
    by (simp only: round_pos_def Let_def k_def [symmetric] u_def [symmetric] n_def [symmetric]
        if_False)
  with lo hi show ?thesis unfolding k_def by blast
qed

lemma round_pos_nonneg:
  assumes "0 < x"
  shows "round_pos x = PosInfinity \<or> (\<exists>r. round_pos x = Finite r \<and> 0 \<le> r)"
proof -
  define u where "u = max (ilog2 x - 52) (- 1074)"
  have "real_of_int 0 \<le> x / 2 powi u" using assms by simp
  then have "0 \<le> round_half_even (x / 2 powi u)" by (rule round_half_even_ge)
  then have "0 \<le> real_of_int (round_half_even (x / 2 powi u)) * 2 powi u" by simp
  then show ?thesis
    unfolding round_pos_def Let_def u_def [symmetric] by simp
qed

lemma double_of_zero: "double_of 0 = Finite 0"
  by (simp add: double_of_def)

lemma double_of_minus: "double_of (- x) = js_neg (double_of x)"
proof -
  have "js_neg (js_neg (round_pos y)) = round_pos y" for y
    by (cases "round_pos y") simp_all
  then show ?thesis by (simp add: double_of_def)
qed

lemma double_of_nat_exact:
  assumes "0 < n" and "n \<le> 2 ^ 53"
  shows "round_pos (of_int n) = Finite (of_int n)"
proof (cases "n = 2 ^ 53")
  case True
  have "round_pos (of_int (2 ^ 52) * 2 powi 1) = Finite (of_int (2 ^ 52) * 2 powi 1)"
    by (rule round_pos_representable) simp_all
  then show ?thesis by (simp add: True)
next
  case False
  have "round_pos (of_int n * 2 powi 0) = Finite (of_int n * 2 powi 0)"
    by (rule round_pos_representable) (use assms False in simp_all)
  then show ?thesis by simp
qed

lemma double_of_int_exact:
  assumes "x \<in> \<int>" and "\<bar>x\<bar> \<le> 2 ^ 53"
  shows "double_of x = Finite x"
proof -
  from assms(1) obtain n where x: "x = of_int n" by (auto elim: Ints_cases)
  have n: "\<bar>n\<bar> \<le> 2 ^ 53"
    using assms(2) unfolding x by (metis of_int_abs of_int_le_iff of_int_numeral of_int_power)
  consider "n = 0" | "0 < n" | "n < 0" by linarith
  then show ?thesis
  proof cases
    case 1
    then show ?thesis by (simp add: x double_of_def)
  next
    case 2
    then have "round_pos (of_int n) = Finite (of_int n)"
      by (rule double_of_nat_exact) (use n in simp)
    then show ?thesis using 2 by (simp add: x double_of_def)
  next
    case 3
    then have "round_pos (of_int (- n)) = Finite (of_int (- n))"
      by (intro double_of_nat_exact) (use n in simp_all)
    then show ?thesis using 3 by (simp add: x double_of_def)
  qed
qed

lemma double_of_nonneg:
  assumes "0 \<le> x"
  shows "double_of x = PosInfinity \<or> (\<exists>r. double_of x = Finite r \<and> 0 \<le> r)"
  using assms round_pos_nonneg [of x] by (cases "x = 0") (simp_all add: double_of_def)

section \<open>Sums of whole numbers are exact\<close>

lemmas double_eval = double_of_def round_pos_def ilog2_def compute_floorlog
  round_half_even_def Let_def

lemma sum_abs_nonneg: "0 \<le> sum_list (map abs (xs :: real list))"
  by (rule sum_list_nonneg) auto

lemma whole_within_elem:
  assumes "whole_within xs" and "x \<in> set xs"
  shows "x \<in> \<int>" and "\<bar>x\<bar> \<le> 2 ^ 53"
proof -
  show "x \<in> \<int>" using assms by (simp add: whole_within_def)
  have "\<bar>x\<bar> \<le> sum_list (map abs xs)"
    by (rule member_le_sum_list) (use assms(2) in auto)
  then show "\<bar>x\<bar> \<le> 2 ^ 53" using assms(1) by (simp add: whole_within_def)
qed


lemma whole_within_filter: "whole_within xs \<Longrightarrow> whole_within (filter P xs)"
proof -
  assume h: "whole_within xs"
  have "sum_list (map abs (filter P xs)) \<le> sum_list (map abs xs)"
    by (induction xs) (auto intro: add_increasing)
  then show ?thesis using h by (auto simp: whole_within_def)
qed

lemma whole_within_mset:
  assumes "mset ys = mset xs" and "whole_within xs"
  shows "whole_within ys"
proof -
  have "set ys = set xs" using assms(1) by (rule mset_eq_setD)
  moreover have "mset (map abs ys) = mset (map abs xs)" using assms(1) by (simp only: mset_map)
  then have "sum_list (map abs ys) = sum_list (map abs xs)" by (rule mset_eq_sum_list)
  ultimately show ?thesis using assms(2) by (simp add: whole_within_def)
qed

lemma whole_within_sum:
  assumes "whole_within xs"
  shows "sum_list xs \<in> \<int>" and "\<bar>sum_list xs\<bar> \<le> 2 ^ 53"
proof -
  have "\<forall>x\<in>set xs. x \<in> \<int>" using assms by (simp add: whole_within_def)
  then show "sum_list xs \<in> \<int>" by (induction xs) auto
  have "\<bar>sum_list xs\<bar> \<le> sum_list (map abs xs)" by (rule sum_list_abs)
  then show "\<bar>sum_list xs\<bar> \<le> 2 ^ 53" using assms by (simp add: whole_within_def)
qed

lemma foldl_double_add_exact:
  "a \<in> \<int> \<Longrightarrow> \<forall>x\<in>set xs. x \<in> \<int> \<Longrightarrow> \<bar>a\<bar> + sum_list (map abs xs) \<le> 2 ^ 53 \<Longrightarrow>
     foldl (\<lambda>a b. double_add a b) (Finite a) (map Finite xs) = Finite (a + sum_list xs)"
proof (induction xs arbitrary: a)
  case Nil
  then show ?case by simp
next
  case (Cons x xs)
  have nn: "0 \<le> sum_list (map abs xs)" by (rule sum_abs_nonneg)
  have ax: "a + x \<in> \<int>" using Cons.prems by simp
  have bound: "\<bar>a + x\<bar> + sum_list (map abs xs) \<le> 2 ^ 53"
    using Cons.prems(3) by simp
  then have "\<bar>a + x\<bar> \<le> 2 ^ 53" using nn by linarith
  then have step: "double_of (a + x) = Finite (a + x)"
    using ax by (simp add: double_of_int_exact)
  have "foldl (\<lambda>a b. double_add a b) (Finite (a + x)) (map Finite xs)
          = Finite (a + x + sum_list xs)"
    by (rule Cons.IH) (use ax bound Cons.prems(2) in simp_all)
  then show ?case by (simp add: step add.assoc)
qed

lemma sum_arr64_exact:
  assumes "whole_within xs"
  shows "sum_arr64 (map Finite xs) = Finite (sum_list xs)"
  using foldl_double_add_exact [of 0 xs] assms
  by (simp add: sum_arr64_def whole_within_def)

lemma calculatePnl64_exact:
  assumes "Trade.amount t \<in> \<int>" and "\<bar>Trade.amount t\<bar> \<le> 2 ^ 53"
  shows "calculatePnl64 t = Finite (calculatePnl t)"
proof -
  have a: "double_of (Trade.amount t) = Finite (Trade.amount t)"
    using assms by (rule double_of_int_exact)
  have b: "double_of (- Trade.amount t) = Finite (- Trade.amount t)"
    by (rule double_of_int_exact) (use assms in simp_all)
  show ?thesis
    by (simp add: calculatePnl64_def calculatePnl_def a b)
qed

lemma abs_calculatePnl: "\<bar>calculatePnl t\<bar> = \<bar>Trade.amount t\<bar>"
  by (simp add: calculatePnl_def)

lemma whole_within_pnls:
  assumes "whole_within (map Trade.amount ts)"
  shows "whole_within (map calculatePnl ts)"
    and "map calculatePnl64 ts = map Finite (map calculatePnl ts)"
proof -
  have el: "Trade.amount t \<in> \<int> \<and> \<bar>Trade.amount t\<bar> \<le> 2 ^ 53" if "t \<in> set ts" for t
    using whole_within_elem [OF assms, of "Trade.amount t"] that by simp
  have "map abs (map calculatePnl ts) = map abs (map Trade.amount ts)"
    by (simp add: abs_calculatePnl)
  moreover have "\<forall>x\<in>set (map calculatePnl ts). x \<in> \<int>"
    using el by (auto simp: calculatePnl_def)
  ultimately show "whole_within (map calculatePnl ts)"
    using assms by (simp only: whole_within_def)
  show "map calculatePnl64 ts = map Finite (map calculatePnl ts)"
    using el by (simp add: calculatePnl64_exact)
qed


section \<open>The equity curve on doubles\<close>






lemmas curve64_defs = buildEquityCurve64_def array_sort_def tradeEntry64_def
  depositEntry64_def compareDates64_def calculatePnl64_def double_sub_def sum_arr64_def



section \<open>The metrics on doubles\<close>

lemma netPnl64_calculateMetrics64:
  "netPnl64 (calculateMetrics64 getTime trades) = sum_arr64 (map calculatePnl64 trades)"
  by (cases trades) (simp_all add: calculateMetrics64_def Let_def sum_arr64_def)

lemma totalTrades64_calculateMetrics64:
  "totalTrades64 (calculateMetrics64 getTime trades) = length trades"
  by (cases trades) (simp_all add: calculateMetrics64_def Let_def)

lemma winRate64_calculateMetrics64:
  "winRate64 (calculateMetrics64 getTime trades)
     = (if trades = [] then Finite 0
        else double_mul
               (double_div (Finite (real (length (filter positive (map calculatePnl64 trades)))))
                           (Finite (real (length trades))))
               (Finite 100))"
  by (cases trades) (simp_all add: calculateMetrics64_def Let_def)

lemma averageWin64_calculateMetrics64:
  "averageWin64 (calculateMetrics64 getTime trades)
     = (if filter positive (map calculatePnl64 trades) \<noteq> []
        then Some (double_div (sum_arr64 (filter positive (map calculatePnl64 trades)))
                     (Finite (real (length (filter positive (map calculatePnl64 trades))))))
        else None)"
  by (cases trades) (simp_all add: calculateMetrics64_def Let_def)

lemma averageLoss64_calculateMetrics64:
  "averageLoss64 (calculateMetrics64 getTime trades)
     = (if filter negative (map calculatePnl64 trades) \<noteq> []
        then Some (double_div (sum_arr64 (filter negative (map calculatePnl64 trades)))
                     (Finite (real (length (filter negative (map calculatePnl64 trades))))))
        else None)"
  by (cases trades) (simp_all add: calculateMetrics64_def Let_def)

lemma profitFactor64_calculateMetrics64:
  "profitFactor64 (calculateMetrics64 getTime trades)
     = (if filter positive (map calculatePnl64 trades) \<noteq> []
           \<and> filter negative (map calculatePnl64 trades) \<noteq> []
        then Some (double_div (sum_arr64 (filter positive (map calculatePnl64 trades)))
                     (js_abs (sum_arr64 (filter negative (map calculatePnl64 trades)))))
        else None)"
  by (cases trades) (simp_all add: calculateMetrics64_def Let_def)

lemma riskReward64_calculateMetrics64:
  "riskReward64 (calculateMetrics64 getTime trades)
     = (case (averageWin64 (calculateMetrics64 getTime trades),
              averageLoss64 (calculateMetrics64 getTime trades)) of
          (Some w, Some l) \<Rightarrow> if l \<noteq> Finite 0 then Some (double_div w (js_abs l)) else None
        | _ \<Rightarrow> None)"
  by (cases trades) (simp_all add: calculateMetrics64_def Let_def)

lemma maxDrawdown64_calculateMetrics64:
  "maxDrawdown64 (calculateMetrics64 getTime trades)
     = snd (foldl drawdown_step64 (Finite 0, Finite 0) (buildEquityCurve64 getTime trades []))"
  by (cases trades)
    (simp_all add: calculateMetrics64_def Let_def buildEquityCurve64_def array_sort_def)

text \<open>Under the whole-number hypothesis the partitions are the exact ones.\<close>

lemma winners64_exact:
  assumes "whole_within (map Trade.amount ts)"
  shows "filter positive (map calculatePnl64 ts)
           = map Finite (filter (\<lambda>p. 0 < p) (map calculatePnl ts))"
    and "filter negative (map calculatePnl64 ts)
           = map Finite (filter (\<lambda>p. p < 0) (map calculatePnl ts))"
  by (simp_all only: whole_within_pnls(2) [OF assms] filter_map comp_def
      positive.simps negative.simps)

lemma sums64_exact:
  assumes "whole_within (map Trade.amount ts)"
  shows "sum_arr64 (map calculatePnl64 ts) = Finite (sum_list (map calculatePnl ts))"
    and "sum_arr64 (filter positive (map calculatePnl64 ts))
           = Finite (sum_list (filter (\<lambda>p. 0 < p) (map calculatePnl ts)))"
    and "sum_arr64 (filter negative (map calculatePnl64 ts))
           = Finite (sum_list (filter (\<lambda>p. p < 0) (map calculatePnl ts)))"
proof -
  note w = whole_within_pnls(1) [OF assms]
  show "sum_arr64 (map calculatePnl64 ts) = Finite (sum_list (map calculatePnl ts))"
    using sum_arr64_exact [OF w] by (simp only: whole_within_pnls(2) [OF assms])
  show "sum_arr64 (filter positive (map calculatePnl64 ts))
           = Finite (sum_list (filter (\<lambda>p. 0 < p) (map calculatePnl ts)))"
    using sum_arr64_exact [OF whole_within_filter [OF w]]
    by (simp only: winners64_exact(1) [OF assms])
  show "sum_arr64 (filter negative (map calculatePnl64 ts))
           = Finite (sum_list (filter (\<lambda>p. p < 0) (map calculatePnl ts)))"
    using sum_arr64_exact [OF whole_within_filter [OF w]]
    by (simp only: winners64_exact(2) [OF assms])
qed

lemma mset_pnls64:
  assumes "mset trades = mset trades'"
  shows "mset (filter P (map calculatePnl64 trades))
           = mset (filter P (map calculatePnl64 trades'))"
  using assms by (simp only: mset_filter mset_map)

text \<open>
  Claim C10, as amended. Two lists of trades with the same multiset of trades, that is
  each a permutation of the other, have the same \<open>totalTrades\<close> and \<open>winRate\<close>. When
  the amounts are whole numbers whose absolute values total at most \<open>2 ^ 53\<close>, no sum
  rounds and they also have the same \<open>netPnl\<close>, \<open>profitFactor\<close>, \<open>riskReward\<close>,
  \<open>averageWin\<close> and \<open>averageLoss\<close>.
\<close>

theorem calculateMetrics64_permutation:
  assumes "mset trades = mset trades'"
  shows "totalTrades64 (calculateMetrics64 getTime trades)
           = totalTrades64 (calculateMetrics64 getTime trades')
       \<and> winRate64 (calculateMetrics64 getTime trades)
           = winRate64 (calculateMetrics64 getTime trades')
       \<and> (whole_within (map Trade.amount trades) \<longrightarrow>
            netPnl64 (calculateMetrics64 getTime trades)
              = netPnl64 (calculateMetrics64 getTime trades')
          \<and> profitFactor64 (calculateMetrics64 getTime trades)
              = profitFactor64 (calculateMetrics64 getTime trades')
          \<and> riskReward64 (calculateMetrics64 getTime trades)
              = riskReward64 (calculateMetrics64 getTime trades')
          \<and> averageWin64 (calculateMetrics64 getTime trades)
              = averageWin64 (calculateMetrics64 getTime trades')
          \<and> averageLoss64 (calculateMetrics64 getTime trades)
              = averageLoss64 (calculateMetrics64 getTime trades'))"
proof (intro conjI impI)
  have len: "length trades = length trades'" by (rule mset_eq_length [OF assms])
  have emp: "(trades = []) = (trades' = [])" by (rule mset_eq_Nil_iff [OF assms])
  define W where "W = filter positive (map calculatePnl64 trades)"
  define W' where "W' = filter positive (map calculatePnl64 trades')"
  define L where "L = filter negative (map calculatePnl64 trades)"
  define L' where "L' = filter negative (map calculatePnl64 trades')"
  have mW: "mset W = mset W'" unfolding W_def W'_def by (rule mset_pnls64 [OF assms])
  have mL: "mset L = mset L'" unfolding L_def L'_def by (rule mset_pnls64 [OF assms])
  have lW: "length W = length W'" by (rule mset_eq_length [OF mW])
  have lL: "length L = length L'" by (rule mset_eq_length [OF mL])
  have eW: "(W = []) = (W' = [])" by (rule mset_eq_Nil_iff [OF mW])
  have eL: "(L = []) = (L' = [])" by (rule mset_eq_Nil_iff [OF mL])
  show "totalTrades64 (calculateMetrics64 getTime trades)
           = totalTrades64 (calculateMetrics64 getTime trades')"
    by (simp only: totalTrades64_calculateMetrics64 len)
  show "winRate64 (calculateMetrics64 getTime trades)
           = winRate64 (calculateMetrics64 getTime trades')"
    using lW len emp
    by (simp only: winRate64_calculateMetrics64 W_def [symmetric] W'_def [symmetric])
  assume h: "whole_within (map Trade.amount trades)"
  have "mset (map Trade.amount trades') = mset (map Trade.amount trades)"
    using assms by (simp only: mset_map)
  then have h': "whole_within (map Trade.amount trades')"
    using h by (rule whole_within_mset)
  have mp: "mset (filter P (map calculatePnl trades)) = mset (filter P (map calculatePnl trades'))"
    for P by (rule mset_partitions [OF assms])
  have "mset (map calculatePnl trades) = mset (map calculatePnl trades')"
    using assms by (simp only: mset_map)
  then have "sum_list (map calculatePnl trades) = sum_list (map calculatePnl trades')"
    by (rule mset_eq_sum_list)
  then have s0: "sum_arr64 (map calculatePnl64 trades) = sum_arr64 (map calculatePnl64 trades')"
    by (simp only: sums64_exact(1) [OF h] sums64_exact(1) [OF h'])
  have eqW: "sum_list (filter (\<lambda>p. 0 < p) (map calculatePnl trades))
               = sum_list (filter (\<lambda>p. 0 < p) (map calculatePnl trades'))"
    by (rule mset_eq_sum_list [OF mp])
  have eqL: "sum_list (filter (\<lambda>p. p < 0) (map calculatePnl trades))
               = sum_list (filter (\<lambda>p. p < 0) (map calculatePnl trades'))"
    by (rule mset_eq_sum_list [OF mp])
  have sW: "sum_arr64 W = sum_arr64 W'"
    unfolding W_def W'_def
    by (simp only: sums64_exact(2) [OF h] sums64_exact(2) [OF h'] eqW)
  have sL: "sum_arr64 L = sum_arr64 L'"
    unfolding L_def L'_def
    by (simp only: sums64_exact(3) [OF h] sums64_exact(3) [OF h'] eqL)
  show "netPnl64 (calculateMetrics64 getTime trades)
              = netPnl64 (calculateMetrics64 getTime trades')"
    by (simp only: netPnl64_calculateMetrics64 s0)
  show aw: "averageWin64 (calculateMetrics64 getTime trades)
              = averageWin64 (calculateMetrics64 getTime trades')"
    using sW lW eW
    by (simp only: averageWin64_calculateMetrics64 W_def [symmetric] W'_def [symmetric])
  show al: "averageLoss64 (calculateMetrics64 getTime trades)
              = averageLoss64 (calculateMetrics64 getTime trades')"
    using sL lL eL
    by (simp only: averageLoss64_calculateMetrics64 L_def [symmetric] L'_def [symmetric])
  show "profitFactor64 (calculateMetrics64 getTime trades)
              = profitFactor64 (calculateMetrics64 getTime trades')"
    using sW sL eW eL
    by (simp only: profitFactor64_calculateMetrics64 W_def [symmetric] W'_def [symmetric]
        L_def [symmetric] L'_def [symmetric])
  show "riskReward64 (calculateMetrics64 getTime trades)
              = riskReward64 (calculateMetrics64 getTime trades')"
    by (simp only: riskReward64_calculateMetrics64 aw al)
qed

theorem calculateMetrics64_permutation_witness:
  "netPnl64 (calculateMetrics64 example_getTime
       [win_trade ''2024-01-01'' 200, loss_trade ''2024-01-02'' 100])
     = netPnl64 (calculateMetrics64 example_getTime
       [loss_trade ''2024-01-02'' 100, win_trade ''2024-01-01'' 200])
   \<and> riskReward64 (calculateMetrics64 example_getTime
       [win_trade ''2024-01-01'' 200, loss_trade ''2024-01-02'' 100])
     = riskReward64 (calculateMetrics64 example_getTime
       [loss_trade ''2024-01-02'' 100, win_trade ''2024-01-01'' 200])"
proof -
  have p: "mset [win_trade ''2024-01-01'' 200, loss_trade ''2024-01-02'' 100]
         = mset [loss_trade ''2024-01-02'' 100, win_trade ''2024-01-01'' 200]"
    by simp
  have h: "whole_within (map Trade.amount
             [win_trade ''2024-01-01'' 200, loss_trade ''2024-01-02'' 100])"
    by (simp add: whole_within_def example_defs)
  show ?thesis
    using calculateMetrics64_permutation [OF p, of example_getTime] h by simp
qed

text \<open>
  Claim C10 as it is written holds for every list. The wins \<open>2 ^ 53\<close>, 1, 1 add up to
  \<open>2 ^ 53\<close> from left to right, and in the order 1, 1, \<open>2 ^ 53\<close> to \<open>2 ^ 53 + 2\<close>.
\<close>

theorem calculateMetrics64_permutation_counterexample:
  "mset [win_trade ''2024-01-01'' (2 ^ 53), win_trade ''2024-01-02'' 1,
         win_trade ''2024-01-02'' 1]
     = mset [win_trade ''2024-01-02'' 1, win_trade ''2024-01-02'' 1,
             win_trade ''2024-01-01'' (2 ^ 53)]
   \<and> netPnl64 (calculateMetrics64 example_getTime
        [win_trade ''2024-01-01'' (2 ^ 53), win_trade ''2024-01-02'' 1,
         win_trade ''2024-01-02'' 1]) = Finite (2 ^ 53)
   \<and> netPnl64 (calculateMetrics64 example_getTime
        [win_trade ''2024-01-02'' 1, win_trade ''2024-01-02'' 1,
         win_trade ''2024-01-01'' (2 ^ 53)]) = Finite (2 ^ 53 + 2)"
  by (simp add: netPnl64_calculateMetrics64 sum_arr64_def calculatePnl64_def
      example_defs double_eval)

section \<open>The daily P&L on doubles\<close>

lemma proto_is_inherited: "''__proto__'' \<in> set object_prototype_names"
  by (simp add: object_prototype_names_def)

lemma reducer64_other:
  "Trade.date t \<noteq> d \<Longrightarrow> reducer64 acc t d = acc d"
  by (auto simp: reducer64_def Let_def split: option.splits jsval.splits)

lemma reducer64_same:
  assumes "Trade.date t \<notin> set object_prototype_names" and "acc (Trade.date t) \<noteq> Some Text"
  shows "reducer64 acc t (Trade.date t)
           = Some (Num (double_add
               (case acc (Trade.date t) of Some (Num v) \<Rightarrow> v | _ \<Rightarrow> Finite 0)
               (calculatePnl64 t)))"
proof -
  have "Trade.date t \<noteq> ''__proto__''" using assms(1) proto_is_inherited by metis
  then show ?thesis
    using assms by (simp add: reducer64_def Let_def split: option.splits jsval.splits)
qed

lemma foldl_reducer64:
  assumes "\<forall>t\<in>set ts. Trade.date t \<notin> set object_prototype_names" and "acc d \<noteq> Some Text"
  shows "foldl reducer64 acc ts d
     = (if \<exists>t\<in>set ts. Trade.date t = d
        then Some (Num (foldl (\<lambda>a b. double_add a b)
                          (case acc d of Some (Num v) \<Rightarrow> v | _ \<Rightarrow> Finite 0)
                          (map calculatePnl64 (filter (\<lambda>t. Trade.date t = d) ts))))
        else acc d)"
  using assms
proof (induction ts arbitrary: acc)
  case Nil
  then show ?case by simp
next
  case (Cons t ts)
  have clean: "\<forall>t\<in>set ts. Trade.date t \<notin> set object_prototype_names"
    using Cons.prems(1) by simp
  show ?case
  proof (cases "Trade.date t = d")
    case True
    have step: "reducer64 acc t d
           = Some (Num (double_add (case acc d of Some (Num v) \<Rightarrow> v | _ \<Rightarrow> Finite 0)
                          (calculatePnl64 t)))"
      using reducer64_same [of t acc] Cons.prems True by simp
    then have nt: "reducer64 acc t d \<noteq> Some Text" by simp
    show ?thesis
      using Cons.IH [of "reducer64 acc t", OF clean nt] True by (simp add: step)
  next
    case False
    have step: "reducer64 acc t d = acc d" by (rule reducer64_other [OF False])
    then have nt: "reducer64 acc t d \<noteq> Some Text" using Cons.prems(2) by simp
    show ?thesis
      using Cons.IH [of "reducer64 acc t", OF clean nt] False by (simp add: step)
  qed
qed

lemma aggregateDailyPnl64_day:
  assumes "\<forall>t\<in>set ts. Trade.date t \<notin> set object_prototype_names"
  shows "aggregateDailyPnl64 ts d
     = (if \<exists>t\<in>set ts. Trade.date t = d
        then Some (Num (sum_arr64 (map calculatePnl64 (filter (\<lambda>t. Trade.date t = d) ts))))
        else None)"
  using foldl_reducer64 [OF assms, of Map.empty d]
  by (simp add: aggregateDailyPnl64_def sum_arr64_def)

lemma whole_within_filter_map:
  assumes "whole_within (map f ts)"
  shows "whole_within (map f (filter P ts))"
proof -
  have "sum_list (map abs (map f (filter P ts))) \<le> sum_list (map abs (map f ts))"
    by (induction ts) (auto intro: add_increasing)
  then show ?thesis using assms by (auto simp: whole_within_def)
qed

text \<open>
  Claim C8, as amended. For trades whose dates name no property inherited from
  \<open>Object.prototype\<close>, a date is a key of the map returned by \<open>aggregateDailyPnl\<close> exactly
  when some trade has that date, also when the results of the day cancel; the function
  reads trades only. When the amounts are whole numbers whose absolute values total at most
  \<open>2 ^ 53\<close>, the value of a day is the exact sum of the results of the trades of that day
  and the values sum to the \<open>netPnl\<close> of \<open>calculateMetrics\<close> on the same trades.
\<close>

theorem aggregateDailyPnl64_keys_total:
  assumes "\<forall>t\<in>set trades. Trade.date t \<notin> set object_prototype_names"
  shows "(d \<in> dom (aggregateDailyPnl64 trades) \<longleftrightarrow> (\<exists>t\<in>set trades. Trade.date t = d))
       \<and> (whole_within (map Trade.amount trades) \<longrightarrow>
            aggregateDailyPnl64 trades d
              = (if \<exists>t\<in>set trades. Trade.date t = d
                 then Some (Num (Finite (sum_list (map calculatePnl
                        (filter (\<lambda>t. Trade.date t = d) trades)))))
                 else None)
          \<and> netPnl64 (calculateMetrics64 getTime trades)
              = Finite (\<Sum>k\<in>dom (aggregateDailyPnl64 trades).
                          sum_list (map calculatePnl (filter (\<lambda>t. Trade.date t = k) trades))))"
proof (intro conjI impI)
  have dm: "dom (aggregateDailyPnl64 trades) = Trade.date ` set trades"
    by (auto simp: dom_def aggregateDailyPnl64_day [OF assms])
  show "d \<in> dom (aggregateDailyPnl64 trades) \<longleftrightarrow> (\<exists>t\<in>set trades. Trade.date t = d)"
    by (auto simp: dm)
  assume h: "whole_within (map Trade.amount trades)"
  have "sum_arr64 (map calculatePnl64 (filter (\<lambda>t. Trade.date t = d) trades))
          = Finite (sum_list (map calculatePnl (filter (\<lambda>t. Trade.date t = d) trades)))"
    by (rule sums64_exact(1) [OF whole_within_filter_map [OF h]])
  then show "aggregateDailyPnl64 trades d
              = (if \<exists>t\<in>set trades. Trade.date t = d
                 then Some (Num (Finite (sum_list (map calculatePnl
                        (filter (\<lambda>t. Trade.date t = d) trades)))))
                 else None)"
    by (simp only: aggregateDailyPnl64_day [OF assms])
  have "(\<Sum>k\<in>Trade.date ` set trades.
            sum_list (map calculatePnl (filter (\<lambda>t. Trade.date t = k) trades)))
          = sum_list (map calculatePnl trades)"
    by (rule sum_by_day) simp_all
  then show "netPnl64 (calculateMetrics64 getTime trades)
              = Finite (\<Sum>k\<in>dom (aggregateDailyPnl64 trades).
                          sum_list (map calculatePnl (filter (\<lambda>t. Trade.date t = k) trades)))"
    by (simp only: dm netPnl64_calculateMetrics64 sums64_exact(1) [OF h])
qed

theorem aggregateDailyPnl64_keys_total_witness:
  "''2024-01-01'' \<in> dom (aggregateDailyPnl64 [win_trade ''2024-01-01'' 100,
       loss_trade ''2024-01-01'' 100, win_trade ''2024-01-02'' 200])
   \<and> aggregateDailyPnl64 [win_trade ''2024-01-01'' 100, loss_trade ''2024-01-01'' 100,
       win_trade ''2024-01-02'' 200] ''2024-01-01'' = Some (Num (Finite 0))
   \<and> netPnl64 (calculateMetrics64 example_getTime [win_trade ''2024-01-01'' 100,
       loss_trade ''2024-01-01'' 100, win_trade ''2024-01-02'' 200])
     = Finite (\<Sum>k\<in>dom (aggregateDailyPnl64 [win_trade ''2024-01-01'' 100,
                   loss_trade ''2024-01-01'' 100, win_trade ''2024-01-02'' 200]).
          sum_list (map calculatePnl (filter (\<lambda>t. Trade.date t = k)
            [win_trade ''2024-01-01'' 100, loss_trade ''2024-01-01'' 100,
             win_trade ''2024-01-02'' 200])))"
proof -
  have c: "\<forall>t\<in>set [win_trade ''2024-01-01'' 100, loss_trade ''2024-01-01'' 100,
             win_trade ''2024-01-02'' 200]. Trade.date t \<notin> set object_prototype_names"
    by (simp add: example_defs object_prototype_names_def)
  have h: "whole_within (map Trade.amount [win_trade ''2024-01-01'' 100,
             loss_trade ''2024-01-01'' 100, win_trade ''2024-01-02'' 200])"
    by (simp add: example_defs whole_within_def)
  have v: "sum_list (map calculatePnl (filter (\<lambda>t. Trade.date t = ''2024-01-01'')
            [win_trade ''2024-01-01'' 100, loss_trade ''2024-01-01'' 100,
             win_trade ''2024-01-02'' 200])) = 0"
    by (simp add: example_defs calculatePnl_def)
  have e: "\<exists>t\<in>set [win_trade ''2024-01-01'' 100, loss_trade ''2024-01-01'' 100,
             win_trade ''2024-01-02'' 200]. Trade.date t = ''2024-01-01''"
    by (simp add: example_defs)
  note T = aggregateDailyPnl64_keys_total [OF c, of "''2024-01-01''" example_getTime]
  from T h e v show ?thesis by (simp only: if_True simp_thms)
qed

text \<open>
  Claim C8 as it is written holds for every list. For the wins \<open>2 ^ 53\<close> on one day and
  1, 1 on the next the map holds \<open>2 ^ 53\<close> and 2, which sum to \<open>2 ^ 53 + 2\<close>, while
  \<open>netPnl\<close> is \<open>2 ^ 53\<close>; and a trade dated \<open>__proto__\<close> leaves the map without that key.
\<close>

theorem aggregateDailyPnl64_total_counterexample:
  "aggregateDailyPnl64 [win_trade ''2024-01-01'' (2 ^ 53), win_trade ''2024-01-02'' 1,
       win_trade ''2024-01-02'' 1] ''2024-01-01'' = Some (Num (Finite (2 ^ 53)))
   \<and> aggregateDailyPnl64 [win_trade ''2024-01-01'' (2 ^ 53), win_trade ''2024-01-02'' 1,
       win_trade ''2024-01-02'' 1] ''2024-01-02'' = Some (Num (Finite 2))
   \<and> dom (aggregateDailyPnl64 [win_trade ''2024-01-01'' (2 ^ 53), win_trade ''2024-01-02'' 1,
       win_trade ''2024-01-02'' 1]) = {''2024-01-01'', ''2024-01-02''}
   \<and> double_add (Finite (2 ^ 53)) (Finite 2) = Finite (2 ^ 53 + 2)
   \<and> netPnl64 (calculateMetrics64 example_getTime [win_trade ''2024-01-01'' (2 ^ 53),
       win_trade ''2024-01-02'' 1, win_trade ''2024-01-02'' 1]) = Finite (2 ^ 53)
   \<and> ''__proto__'' \<notin> dom (aggregateDailyPnl64 [win_trade ''__proto__'' 100])"
  by (auto simp add: aggregateDailyPnl64_def reducer64_def netPnl64_calculateMetrics64
      sum_arr64_def calculatePnl64_def example_defs object_prototype_names_def double_eval)

section \<open>The drawdown on doubles\<close>

lemma nonnegative_double_of: "0 \<le> x \<Longrightarrow> nonnegative (double_of x)"
  using double_of_nonneg [of x] by auto

lemma nonnegative_double_max:
  "nonnegative a \<Longrightarrow> nonnegative b \<Longrightarrow> nonnegative (double_max a b)"
  by (cases a; cases b) simp_all

lemma double_max_zero: "nonnegative a \<Longrightarrow> double_max a (Finite 0) = a"
  by (cases a) simp_all

lemma drawdown_step64_finite:
  "drawdown_step64 (Finite p, m) \<lparr>point_date = d, point_value = Finite v, point_pnl = x\<rparr>
     = (Finite (max p v), double_max m (double_of (max p v - v)))"
  by (simp add: drawdown_step64_def Let_def double_sub_def)

lemma foldl_drawdown64_nonneg:
  assumes "map point_value pts = map Finite vs" and "nonnegative m"
  shows "\<exists>p' m'. foldl drawdown_step64 (Finite p, m) pts = (Finite p', m') \<and> nonnegative m'"
  using assms
proof (induction pts arbitrary: vs p m)
  case Nil
  then show ?case by simp
next
  case (Cons pt pts)
  from Cons.prems(1) obtain v vs' where vs: "vs = v # vs'" "point_value pt = Finite v"
    "map point_value pts = map Finite vs'"
    by (cases vs) auto
  have step: "drawdown_step64 (Finite p, m) pt
                = (Finite (max p v), double_max m (double_of (max p v - v)))"
    using drawdown_step64_finite [of p m "point_date pt" v "point_pnl pt"] vs(2)
    by (cases pt) simp
  have nn: "nonnegative (double_max m (double_of (max p v - v)))"
    by (intro nonnegative_double_max nonnegative_double_of Cons.prems(2)) simp
  show ?case
    using Cons.IH [OF vs(3) nn, of "max p v"] by (simp add: step)
qed

lemma foldl_drawdown64_sorted:
  assumes "map point_value pts = map Finite vs" and "sorted (p # vs)" and "nonnegative m"
  shows "snd (foldl drawdown_step64 (Finite p, m) pts) = m"
  using assms
proof (induction pts arbitrary: vs p)
  case Nil
  then show ?case by simp
next
  case (Cons pt pts)
  from Cons.prems(1) obtain v vs' where vs: "vs = v # vs'" "point_value pt = Finite v"
    "map point_value pts = map Finite vs'"
    by (cases vs) auto
  have le: "p \<le> v" and srt: "sorted (v # vs')" using Cons.prems(2) vs(1) by simp_all
  have "drawdown_step64 (Finite p, m) pt
                = (Finite (max p v), double_max m (double_of (max p v - v)))"
    using drawdown_step64_finite [of p m "point_date pt" v "point_pnl pt"] vs(2)
    by (cases pt) simp
  then have step: "drawdown_step64 (Finite p, m) pt = (Finite v, m)"
    using le Cons.prems(3) by (simp add: max_def double_of_zero double_max_zero)
  show ?case
    using Cons.IH [OF vs(3) srt Cons.prems(3)] by (simp add: step)
qed

text \<open>
  Claim C5, as amended. When every value of the curve of the trades is finite, the field
  \<open>maxDrawdown\<close> is greater than or equal to 0 (a finite number or \<open>Infinity\<close>), and
  it is 0 when the curve is non-decreasing from the starting equity 0: its first value is
  at least 0 and each later value is at least the value before it.
\<close>

theorem maxDrawdown64_nonneg:
  assumes "map point_value (buildEquityCurve64 getTime trades []) = map Finite vs"
  shows "nonnegative (maxDrawdown64 (calculateMetrics64 getTime trades))
       \<and> (sorted (0 # vs) \<longrightarrow>
            maxDrawdown64 (calculateMetrics64 getTime trades) = Finite 0)"
proof (intro conjI impI)
  obtain p' m' where "foldl drawdown_step64 (Finite 0, Finite 0)
        (buildEquityCurve64 getTime trades []) = (Finite p', m')" and "nonnegative m'"
    using foldl_drawdown64_nonneg [OF assms, of "Finite 0" 0] by auto
  then show "nonnegative (maxDrawdown64 (calculateMetrics64 getTime trades))"
    by (simp add: maxDrawdown64_calculateMetrics64)
next
  assume "sorted (0 # vs)"
  then have "snd (foldl drawdown_step64 (Finite 0, Finite 0)
        (buildEquityCurve64 getTime trades [])) = Finite 0"
    by (intro foldl_drawdown64_sorted [OF assms]) simp_all
  then show "maxDrawdown64 (calculateMetrics64 getTime trades) = Finite 0"
    by (simp add: maxDrawdown64_calculateMetrics64)
qed

lemmas metrics64_eval = maxDrawdown64_calculateMetrics64 drawdown_step64_def curve64_defs
  example_defs double_eval

theorem maxDrawdown64_nonneg_witness:
  "map point_value (buildEquityCurve64 example_getTime
       [win_trade ''2024-01-01'' 50, win_trade ''2024-01-01'' 50, win_trade ''2024-01-02'' 50] [])
     = map Finite [50, 100, 150]
   \<and> maxDrawdown64 (calculateMetrics64 example_getTime
       [win_trade ''2024-01-01'' 50, win_trade ''2024-01-01'' 50, win_trade ''2024-01-02'' 50])
     = Finite 0"
proof -
  have c: "map point_value (buildEquityCurve64 example_getTime
       [win_trade ''2024-01-01'' 50, win_trade ''2024-01-01'' 50, win_trade ''2024-01-02'' 50] [])
     = map Finite [50, 100, 150]"
    by (simp add: curve64_defs example_defs double_eval)
  have s: "sorted (0 # [50, 100, 150 :: real])" by simp
  from maxDrawdown64_nonneg [OF c] s c show ?thesis by blast
qed

text \<open>
  Claim C5 as it is written asks only that each value is at least the value before it, for
  every list of trades. The curve of one losing trade of 300 has the single value
  \<open>-300\<close>, so it is non-decreasing, and its drawdown from the starting peak 0 is 300.
  Two wins of \<open>2 ^ 1023\<close> take the curve to \<open>Infinity\<close>, where the peak minus the
  value is \<open>NaN\<close>, and \<open>maxDrawdown\<close> is \<open>NaN\<close>.
\<close>

theorem maxDrawdown64_counterexample:
  "map point_value (buildEquityCurve64 example_getTime [loss_trade ''2024-01-02'' 300] [])
     = [Finite (- 300)]
   \<and> sorted [- 300 :: real]
   \<and> maxDrawdown64 (calculateMetrics64 example_getTime [loss_trade ''2024-01-02'' 300])
       = Finite 300
   \<and> maxDrawdown64 (calculateMetrics64 example_getTime
        [win_trade ''2024-01-01'' (2 ^ 1023), win_trade ''2024-01-02'' (2 ^ 1023)]) = NaN"
proof -
  have one: "map point_value (buildEquityCurve64 example_getTime [loss_trade ''2024-01-02'' 300] [])
     = [Finite (- 300)]"
    by (simp add: curve64_defs example_defs double_eval)
  have dd: "maxDrawdown64 (calculateMetrics64 example_getTime [loss_trade ''2024-01-02'' 300])
       = Finite 300"
    by (simp add: metrics64_eval)
  define a :: real where "a = 2 ^ 1023"
  have a_pos: "0 < a" by (simp add: a_def)
  have "round_pos (of_int (2 ^ 52) * 2 powi 971) = Finite (of_int (2 ^ 52) * 2 powi 971)"
    by (rule round_pos_representable) simp_all
  moreover have "real_of_int (2 ^ 52) * 2 powi 971 = a"
    using power_int_add [of "2::real" 52 971] by (simp add: a_def)
  ultimately have ra: "round_pos a = Finite a" by simp
  have "(2::real) ^ 1024 \<le> a + a" by (simp add: a_def)
  then have raa: "round_pos (a + a) = PosInfinity" by (rule round_pos_overflow)
  have da: "double_of a = Finite a" using a_pos ra by (simp add: double_of_def)
  have daa: "double_of (2 * a) = PosInfinity" using a_pos raa by (simp add: double_of_def)
  have pa: "calculatePnl64 (win_trade d a) = Finite a" for d
    using a_pos by (simp add: calculatePnl64_def win_trade_def da)
  have cmp: "\<not> positive (compareDates64 example_getTime
               (tradeEntry64 (win_trade ''2024-01-01'' a))
               (tradeEntry64 (win_trade ''2024-01-02'' a)))"
    by (simp add: compareDates64_def tradeEntry64_def example_defs double_sub_def double_eval)
  have "maxDrawdown64 (calculateMetrics64 example_getTime
        [win_trade ''2024-01-01'' a, win_trade ''2024-01-02'' a]) = NaN"
    using cmp a_pos
    by (simp add: maxDrawdown64_calculateMetrics64 buildEquityCurve64_def array_sort_def
        tradeEntry64_def pa da daa drawdown_step64_def double_sub_def Let_def double_of_zero
        max_def)
  then show ?thesis using one dd by (simp add: a_def)
qed

section \<open>Profit factor and risk/reward on doubles\<close>

lemma double_of_range:
  assumes "2 powi a \<le> x" and "x \<le> 2 powi b" and "- 1022 \<le> a" and "b \<le> 1022"
  shows "\<exists>r. double_of x = Finite r \<and> 2 powi a \<le> r \<and> r \<le> 2 powi (b + 1)"
proof -
  have "(0::real) < 2 powi a" by simp
  then have x_pos: "0 < x" using assms(1) by linarith
  have ka: "a \<le> ilog2 x" by (rule ilog2_ge [OF x_pos assms(1)])
  have "(2::real) powi b < 2 powi (b + 1)"
    by (rule power_int_strict_increasing) simp_all
  then have "x < 2 powi (b + 1)" using assms(2) by linarith
  then have "ilog2 x < b + 1" by (rule ilog2_lt [OF x_pos])
  then have kb: "ilog2 x \<le> b" by simp
  obtain r where r: "round_pos x = Finite r" "2 powi ilog2 x \<le> r" "r \<le> 2 powi (ilog2 x + 1)"
    using round_pos_range [OF x_pos] ka kb assms(3,4) by force
  have "(2::real) powi a \<le> 2 powi ilog2 x"
    by (rule power_int_increasing) (use ka in simp_all)
  moreover have "(2::real) powi (ilog2 x + 1) \<le> 2 powi (b + 1)"
    by (rule power_int_increasing) (use kb in simp_all)
  moreover have "double_of x = Finite r" using x_pos r(1) by (simp add: double_of_def)
  ultimately show ?thesis using r(2,3) by (intro exI [of _ r]) linarith
qed

lemma whole_pos_ge_one: "x \<in> \<int> \<Longrightarrow> 0 < x \<Longrightarrow> 1 \<le> (x::real)"
  by (auto elim!: Ints_cases)

lemma length_le_sum_pos:
  fixes xs :: "real list"
  shows "\<forall>x\<in>set xs. x \<in> \<int> \<and> 0 < x \<Longrightarrow> real (length xs) \<le> sum_list xs"
proof (induction xs)
  case Nil
  then show ?case by simp
next
  case (Cons x xs)
  have "1 \<le> x" using Cons.prems by (intro whole_pos_ge_one) simp_all
  moreover have "real (length xs) \<le> sum_list xs" using Cons by simp
  ultimately show ?case by simp
qed

text \<open>The mean or the quotient of two whole numbers between 1 and \<open>2 ^ 53\<close> is finite.\<close>

lemma double_of_quotient:
  assumes "1 \<le> x" "x \<le> 2 powi 54" "1 \<le> y" "y \<le> 2 powi 54"
  shows "\<exists>r. double_of (x / y) = Finite r \<and> 2 powi (- 54) \<le> r \<and> r \<le> 2 powi 55"
proof -
  have inv: "(2::real) powi (- 54) = 1 / 2 powi 54" by (rule power_int_minus_divide)
  have lo: "2 powi (- 54) \<le> x / y"
    unfolding inv by (rule frac_le) (use assms in simp_all)
  have "x / y \<le> 2 powi 54 / 1"
    by (rule frac_le) (use assms in simp_all)
  then have hi: "x / y \<le> 2 powi 54" by simp
  show ?thesis
    using double_of_range [OF lo hi] by simp
qed

lemma double_of_mean:
  assumes "1 \<le> n" "n \<le> s" "s \<le> 2 ^ 53"
  shows "\<exists>r. double_of (s / n) = Finite r \<and> 1 \<le> r \<and> r \<le> 2 powi 54"
proof -
  have lo: "2 powi 0 \<le> s / n" using assms by simp
  have "s / n \<le> 2 ^ 53 / 1"
    by (rule frac_le) (use assms in simp_all)
  then have hi: "s / n \<le> 2 powi 53" by simp
  show ?thesis
    using double_of_range [OF lo hi] by simp
qed

text \<open>
  Claim C6, as amended. With \<open>winners\<close> the positive and \<open>losers\<close> the negative
  results of the trades: when one of them is empty \<open>profitFactor\<close> and \<open>riskReward\<close> are
  null; when both are non-empty \<open>profitFactor\<close> is the double quotient of the sum of the
  winners by the absolute sum of the losers. When moreover the amounts are whole numbers
  whose absolute values total at most \<open>2 ^ 53\<close>, the sums are exact, the sum of the
  losers is negative, and both fields are finite numbers.
\<close>

theorem calculateMetrics64_profitFactor:
  "(filter positive (map calculatePnl64 trades) = []
      \<or> filter negative (map calculatePnl64 trades) = []
    \<longrightarrow> profitFactor64 (calculateMetrics64 getTime trades) = None
        \<and> riskReward64 (calculateMetrics64 getTime trades) = None)
   \<and> (filter positive (map calculatePnl64 trades) \<noteq> []
        \<and> filter negative (map calculatePnl64 trades) \<noteq> []
      \<longrightarrow> profitFactor64 (calculateMetrics64 getTime trades)
            = Some (double_div (sum_arr64 (filter positive (map calculatePnl64 trades)))
                      (js_abs (sum_arr64 (filter negative (map calculatePnl64 trades))))))
   \<and> (filter positive (map calculatePnl64 trades) \<noteq> []
        \<and> filter negative (map calculatePnl64 trades) \<noteq> []
        \<and> whole_within (map Trade.amount trades)
      \<longrightarrow> sum_list (filter (\<lambda>p. p < 0) (map calculatePnl trades)) < 0
          \<and> profitFactor64 (calculateMetrics64 getTime trades)
              = Some (double_of (sum_list (filter (\<lambda>p. 0 < p) (map calculatePnl trades))
                                 / \<bar>sum_list (filter (\<lambda>p. p < 0) (map calculatePnl trades))\<bar>))
          \<and> (\<exists>p. profitFactor64 (calculateMetrics64 getTime trades) = Some (Finite p))
          \<and> (\<exists>r. riskReward64 (calculateMetrics64 getTime trades) = Some (Finite r)))"
proof -
  define W where "W = filter positive (map calculatePnl64 trades)"
  define L where "L = filter negative (map calculatePnl64 trades)"
  define Wx where "Wx = filter (\<lambda>p. 0 < p) (map calculatePnl trades)"
  define Lx where "Lx = filter (\<lambda>p. p < 0) (map calculatePnl trades)"
  let ?m = "calculateMetrics64 getTime trades"
  have pf: "profitFactor64 ?m
      = (if W \<noteq> [] \<and> L \<noteq> []
         then Some (double_div (sum_arr64 W) (js_abs (sum_arr64 L))) else None)"
    unfolding W_def L_def by (rule profitFactor64_calculateMetrics64)
  have aw: "averageWin64 ?m
      = (if W \<noteq> [] then Some (double_div (sum_arr64 W) (Finite (real (length W)))) else None)"
    unfolding W_def by (rule averageWin64_calculateMetrics64)
  have al: "averageLoss64 ?m
      = (if L \<noteq> [] then Some (double_div (sum_arr64 L) (Finite (real (length L)))) else None)"
    unfolding L_def by (rule averageLoss64_calculateMetrics64)
  note rr = riskReward64_calculateMetrics64 [of getTime trades]
  have one_sided: "profitFactor64 ?m = None \<and> riskReward64 ?m = None" if "W = [] \<or> L = []"
    using that by (auto simp: pf rr aw al)
  have two_sided: "profitFactor64 ?m = Some (double_div (sum_arr64 W) (js_abs (sum_arr64 L)))"
    if "W \<noteq> [] \<and> L \<noteq> []"
    using that by (simp add: pf)
  have whole: "sum_list Lx < 0
      \<and> profitFactor64 ?m = Some (double_of (sum_list Wx / \<bar>sum_list Lx\<bar>))
      \<and> (\<exists>p. profitFactor64 ?m = Some (Finite p))
      \<and> (\<exists>r. riskReward64 ?m = Some (Finite r))"
    if ne: "W \<noteq> [] \<and> L \<noteq> [] \<and> whole_within (map Trade.amount trades)"
  proof -
    from ne have h: "whole_within (map Trade.amount trades)" by simp
    have Wm: "W = map Finite Wx" and Lm: "L = map Finite Lx"
      unfolding W_def L_def Wx_def Lx_def by (rule winners64_exact [OF h])+
    have sW: "sum_arr64 W = Finite (sum_list Wx)" and sL: "sum_arr64 L = Finite (sum_list Lx)"
      unfolding W_def L_def Wx_def Lx_def by (rule sums64_exact(2,3) [OF h])+
    have wp: "whole_within (map calculatePnl trades)" by (rule whole_within_pnls(1) [OF h])
    have wW: "whole_within Wx" and wL: "whole_within Lx"
      unfolding Wx_def Lx_def by (rule whole_within_filter [OF wp])+
    have lenW: "length W = length Wx" and lenL: "length L = length Lx"
      by (simp_all add: Wm Lm)
    have nW: "1 \<le> real (length Wx)" using ne lenW by (cases Wx) simp_all
    have nL: "1 \<le> real (length Lx)" using ne lenL by (cases Lx) simp_all
    have "\<forall>x\<in>set Wx. x \<in> \<int> \<and> 0 < x" using wW by (auto simp: whole_within_def Wx_def)
    then have cW: "real (length Wx) \<le> sum_list Wx" by (rule length_le_sum_pos)
    have "\<forall>x\<in>set (map uminus Lx). x \<in> \<int> \<and> 0 < x"
      using wL by (auto simp: whole_within_def Lx_def)
    then have "real (length (map uminus Lx)) \<le> sum_list (map uminus Lx)"
      by (rule length_le_sum_pos)
    moreover have "sum_list (map uminus Lx) = - sum_list Lx"
      by (induction Lx) simp_all
    ultimately have cL: "real (length Lx) \<le> - sum_list Lx" by simp
    have bW: "sum_list Wx \<le> 2 ^ 53" and bL: "- sum_list Lx \<le> 2 ^ 53"
      using whole_within_sum(2) [OF wW] whole_within_sum(2) [OF wL] by linarith+
    have neg: "sum_list Lx < 0" using cL nL by linarith
    have absL: "\<bar>sum_list Lx\<bar> = - sum_list Lx" using neg by simp
    have pf': "profitFactor64 ?m = Some (double_of (sum_list Wx / \<bar>sum_list Lx\<bar>))"
      using ne neg by (simp add: pf sW sL)
    have p53: "(2::real) ^ 53 \<le> 2 powi 54" by simp
    obtain p where p: "double_of (sum_list Wx / \<bar>sum_list Lx\<bar>) = Finite p"
      using double_of_quotient [of "sum_list Wx" "\<bar>sum_list Lx\<bar>"] cW nW cL nL bW bL absL p53
      by force
    obtain r1 where r1: "double_of (sum_list Wx / real (length Wx)) = Finite r1"
        "1 \<le> r1" "r1 \<le> 2 powi 54"
      using double_of_mean [OF nW cW bW] by blast
    obtain r2 where r2: "double_of (- sum_list Lx / real (length Lx)) = Finite r2"
        "1 \<le> r2" "r2 \<le> 2 powi 54"
      using double_of_mean [OF nL cL bL] by blast
    have "double_of (- (sum_list Lx / real (length Lx))) = Finite r2"
      using r2(1) by simp
    then have "js_neg (double_of (sum_list Lx / real (length Lx))) = Finite r2"
      by (simp only: double_of_minus)
    then have l: "double_of (sum_list Lx / real (length Lx)) = Finite (- r2)"
      by (cases "double_of (sum_list Lx / real (length Lx))") simp_all
    have neWx: "Wx \<noteq> []" and neLx: "Lx \<noteq> []" using nW nL by auto
    have aw': "averageWin64 ?m = Some (Finite r1)"
      using ne nW neWx by (simp add: aw sW lenW r1(1))
    have al': "averageLoss64 ?m = Some (Finite (- r2))"
      using ne nL neLx by (simp add: al sL lenL l)
    obtain r where r: "double_of (r1 / r2) = Finite r"
      using double_of_quotient [OF r1(2,3) r2(2,3)] by blast
    have "riskReward64 ?m = Some (Finite r)"
      using r2(2) by (simp add: rr aw' al' r)
    then show ?thesis using neg pf' p by (simp add: pf')
  qed
  from one_sided two_sided whole show ?thesis
    unfolding W_def L_def Wx_def Lx_def by blast
qed

theorem calculateMetrics64_profitFactor_witness:
  "profitFactor64 (calculateMetrics64 example_getTime
       [win_trade ''2024-01-01'' 200, loss_trade ''2024-01-02'' 100]) = Some (Finite 2)
   \<and> riskReward64 (calculateMetrics64 example_getTime
       [win_trade ''2024-01-01'' 200, loss_trade ''2024-01-02'' 100]) = Some (Finite 2)
   \<and> profitFactor64 (calculateMetrics64 example_getTime
       [win_trade ''2024-01-01'' 50, win_trade ''2024-01-01'' 50, win_trade ''2024-01-02'' 50])
       = None
   \<and> riskReward64 (calculateMetrics64 example_getTime
       [win_trade ''2024-01-01'' 50, win_trade ''2024-01-01'' 50, win_trade ''2024-01-02'' 50])
       = None"
proof -
  have p: "calculatePnl64 (win_trade ''2024-01-01'' 200) = Finite 200"
    "calculatePnl64 (loss_trade ''2024-01-02'' 100) = Finite (- 100)"
    by (simp_all add: calculatePnl64_def example_defs double_eval)
  have q: "calculatePnl64 (win_trade d 50) = Finite 50" for d
    by (simp add: calculatePnl64_def example_defs double_eval)
  have h: "whole_within (map Trade.amount
             [win_trade ''2024-01-01'' 200, loss_trade ''2024-01-02'' 100])"
    by (simp add: whole_within_def example_defs)
  have x: "calculatePnl (win_trade ''2024-01-01'' 200) = 200"
    "calculatePnl (loss_trade ''2024-01-02'' 100) = - 100"
    by (simp_all add: calculatePnl_def example_defs)
  have d2: "double_of 2 = Finite 2" by (simp add: double_eval)
  have rr: "riskReward64 (calculateMetrics64 example_getTime
       [win_trade ''2024-01-01'' 200, loss_trade ''2024-01-02'' 100]) = Some (Finite 2)"
    by (simp add: riskReward64_calculateMetrics64 averageWin64_calculateMetrics64
        averageLoss64_calculateMetrics64 p sum_arr64_def double_eval)
  note A = calculateMetrics64_profitFactor
      [of "[win_trade ''2024-01-01'' 200, loss_trade ''2024-01-02'' 100]" example_getTime]
  note B = calculateMetrics64_profitFactor
      [of "[win_trade ''2024-01-01'' 50, win_trade ''2024-01-01'' 50,
            win_trade ''2024-01-02'' 50]" example_getTime]
  have hyp: "filter positive (map calculatePnl64
                 [win_trade ''2024-01-01'' 200, loss_trade ''2024-01-02'' 100]) \<noteq> []
             \<and> filter negative (map calculatePnl64
                 [win_trade ''2024-01-01'' 200, loss_trade ''2024-01-02'' 100]) \<noteq> []
             \<and> whole_within (map Trade.amount
                 [win_trade ''2024-01-01'' 200, loss_trade ''2024-01-02'' 100])"
    using h by (simp add: p)
  from A hyp have "profitFactor64 (calculateMetrics64 example_getTime
       [win_trade ''2024-01-01'' 200, loss_trade ''2024-01-02'' 100])
     = Some (double_of (sum_list (filter (\<lambda>p. 0 < p) (map calculatePnl
                 [win_trade ''2024-01-01'' 200, loss_trade ''2024-01-02'' 100]))
              / \<bar>sum_list (filter (\<lambda>p. p < 0) (map calculatePnl
                 [win_trade ''2024-01-01'' 200, loss_trade ''2024-01-02'' 100]))\<bar>))"
    by blast
  then have "profitFactor64 (calculateMetrics64 example_getTime
       [win_trade ''2024-01-01'' 200, loss_trade ''2024-01-02'' 100]) = Some (Finite 2)"
    by (simp add: x d2)
  moreover have "profitFactor64 (calculateMetrics64 example_getTime
       [win_trade ''2024-01-01'' 50, win_trade ''2024-01-01'' 50, win_trade ''2024-01-02'' 50])
       = None
   \<and> riskReward64 (calculateMetrics64 example_getTime
       [win_trade ''2024-01-01'' 50, win_trade ''2024-01-01'' 50, win_trade ''2024-01-02'' 50])
       = None"
    using B by (simp add: q)
  ultimately show ?thesis using rr by simp
qed

text \<open>
  Claim C6 as it is written excludes \<open>Infinity\<close> and \<open>NaN\<close> for every list. For a win
  of \<open>2 ^ 600\<close> and a loss of \<open>2 ^ -600\<close> the quotient \<open>2 ^ 1200\<close> overflows, and
  both fields are \<open>Infinity\<close>.
\<close>

theorem calculateMetrics64_infinity_counterexample:
  "profitFactor64 (calculateMetrics64 example_getTime
       [win_trade ''2024-01-01'' (2 ^ 600), loss_trade ''2024-01-02'' (1 / 2 ^ 600)])
     = Some PosInfinity
   \<and> riskReward64 (calculateMetrics64 example_getTime
       [win_trade ''2024-01-01'' (2 ^ 600), loss_trade ''2024-01-02'' (1 / 2 ^ 600)])
     = Some PosInfinity"
proof -
  define a :: real where "a = 2 ^ 600"
  define b :: real where "b = 1 / a"
  have a_pos: "0 < a" by (simp add: a_def)
  have b_pos: "0 < b" using a_pos by (simp add: b_def)
  have "round_pos (of_int 1 * 2 powi 600) = Finite (of_int 1 * 2 powi 600)"
    by (rule round_pos_representable) simp_all
  then have ra: "round_pos a = Finite a"
    by (simp only: a_def of_int_1 mult_1 power_int_numeral)
  have "round_pos (of_int 1 * 2 powi (- 600)) = Finite (of_int 1 * 2 powi (- 600))"
    by (rule round_pos_representable) simp_all
  moreover have "(2::real) powi (- 600) = b"
    by (simp only: b_def a_def power_int_minus_divide power_int_numeral)
  ultimately have rb: "round_pos b = Finite b"
    by (simp only: of_int_1 mult_1)
  have "(2::real) ^ 1024 \<le> a * a" by (simp add: a_def)
  then have raa: "round_pos (a * a) = PosInfinity" by (rule round_pos_overflow)
  have ab: "a / b = a * a" by (simp add: b_def)
  have da: "double_of a = Finite a" using a_pos ra by (simp add: double_of_def)
  have db: "double_of b = Finite b" using b_pos rb by (simp add: double_of_def)
  have dnb: "double_of (- b) = Finite (- b)" by (simp add: double_of_minus db)
  have dq: "double_of (a * a) = PosInfinity" using a_pos raa by (simp add: double_of_def)
  have p: "calculatePnl64 (win_trade ''2024-01-01'' a) = Finite a"
    "calculatePnl64 (loss_trade ''2024-01-02'' b) = Finite (- b)"
    by (simp_all add: calculatePnl64_def example_defs da db dnb)
  have pf: "profitFactor64 (calculateMetrics64 example_getTime
       [win_trade ''2024-01-01'' a, loss_trade ''2024-01-02'' b]) = Some PosInfinity"
    using a_pos b_pos
    by (simp add: profitFactor64_calculateMetrics64 p sum_arr64_def da dnb ab dq)
  have rr: "riskReward64 (calculateMetrics64 example_getTime
       [win_trade ''2024-01-01'' a, loss_trade ''2024-01-02'' b]) = Some PosInfinity"
    using a_pos b_pos
    by (simp add: riskReward64_calculateMetrics64 averageWin64_calculateMetrics64
        averageLoss64_calculateMetrics64 p sum_arr64_def da dnb ab dq)
  from pf rr show ?thesis by (simp only: a_def b_def)
qed

end
